theory Spec2Isabelle
  imports Main
begin

section \<open>Python values used by the loaders\<close>

text \<open>
  Strings are lists of characters. A character stands for one code point below 256;
  the code points beyond that range are not covered by this development.
  An exception that leaves a function is a value \<open>Inl e\<close> of a sum type.
\<close>

datatype error =
    ValueError
  | KeyError string
  | UniqueViolation
  | NumericValueOutOfRange
  | UndefinedColumn string
  | InFailedSqlTransaction
  | InvalidRegularExpression

definition then_do :: "error + 'a \<Rightarrow> ('a \<Rightarrow> error + 'b) \<Rightarrow> error + 'b" where
  "then_do m f = (case m of Inl e \<Rightarrow> Inl e | Inr v \<Rightarrow> f v)"

text \<open>
  The characters \<open>str.strip\<close> treats as white space: the controls 9 to 13, the
  separators 28 to 31, the space, and the code points 133 and 160.
\<close>

definition py_isspace :: "char \<Rightarrow> bool" where
  "py_isspace c =
     (let n = (of_char c :: nat)
      in (9 \<le> n \<and> n \<le> 13) \<or> (28 \<le> n \<and> n \<le> 32) \<or> n = 133 \<or> n = 160)"

definition py_strip :: "string \<Rightarrow> string" where
  "py_strip s = rev (dropWhile py_isspace (rev (dropWhile py_isspace s)))"

text \<open>
  The characters \<open>int\<close> drops around a number: the same without the separators 28
  to 31, which \<open>int\<close> refuses.
\<close>

definition int_isspace :: "char \<Rightarrow> bool" where
  "int_isspace c =
     (let n = (of_char c :: nat)
      in (9 \<le> n \<and> n \<le> 13) \<or> n = 32 \<or> n = 133 \<or> n = 160)"

definition int_strip :: "string \<Rightarrow> string" where
  "int_strip s = rev (dropWhile int_isspace (rev (dropWhile int_isspace s)))"

text \<open>The decimal digits \<open>0\<close> to \<open>9\<close>, the only digits \<open>int\<close> accepts below 256.\<close>

definition is_decimal :: "char \<Rightarrow> bool" where
  "is_decimal c = (let n = (of_char c :: nat) in 48 \<le> n \<and> n \<le> 57)"

definition digit_val :: "char \<Rightarrow> nat" where
  "digit_val c = of_char c - 48"

text \<open>
  \<open>str.isdigit\<close>: a non-empty string of characters with the digit property. Below 256
  these are the decimal digits and the superscripts two, three and one (178, 179, 185).
\<close>

definition isdigit_char :: "char \<Rightarrow> bool" where
  "isdigit_char c =
     (let n = (of_char c :: nat) in (48 \<le> n \<and> n \<le> 57) \<or> n = 178 \<or> n = 179 \<or> n = 185)"

definition isdigit :: "string \<Rightarrow> bool" where
  "isdigit s = (s \<noteq> [] \<and> list_all isdigit_char s)"

text \<open>
  \<open>int(s)\<close> for a string: surrounding white space is dropped, one sign is allowed, then
  decimal digits follow, where single underscores may stand between two digits. A
  string of more than 4300 digits is refused (the default of
  \<open>sys.int_max_str_digits\<close>). \<open>None\<close> is the \<open>ValueError\<close> of the source.
  \<open>py_digits acc cs\<close> reads what follows a digit.
\<close>

definition int_max_str_digits :: nat where
  "int_max_str_digits = 4300"

fun py_digits :: "nat \<Rightarrow> string \<Rightarrow> nat option" where
  "py_digits acc [] = Some acc"
| "py_digits acc [c] = (if is_decimal c then Some (10 * acc + digit_val c) else None)"
| "py_digits acc (c # d # cs) =
     (if is_decimal c then py_digits (10 * acc + digit_val c) (d # cs)
      else if c = CHR ''_'' \<and> is_decimal d then py_digits (10 * acc + digit_val d) cs
      else None)"

definition py_unsigned :: "string \<Rightarrow> nat option" where
  "py_unsigned s =
     (case s of
        [] \<Rightarrow> None
      | c # cs \<Rightarrow>
          if is_decimal c \<and> length (filter is_decimal s) \<le> int_max_str_digits
          then py_digits (digit_val c) cs
          else None)"

definition py_int :: "string \<Rightarrow> int option" where
  "py_int s =
     (case int_strip s of
        [] \<Rightarrow> None
      | c # cs \<Rightarrow>
          if c = CHR ''-'' then map_option (\<lambda>n. - int n) (py_unsigned cs)
          else if c = CHR ''+'' then map_option int (py_unsigned cs)
          else map_option int (py_unsigned (c # cs)))"

definition int_of :: "string \<Rightarrow> error + int" where
  "int_of s = (case py_int s of None \<Rightarrow> Inl ValueError | Some v \<Rightarrow> Inr v)"

text \<open>
  The identifier rule of every loader, \<open>int(row[...][2:])\<close>: the slice drops the first two
  characters, whatever they are.
\<close>

definition parse_id :: "string \<Rightarrow> error + int" where
  "parse_id raw = int_of (drop 2 raw)"

text \<open>The value of a digit string, position by position.\<close>

definition dec_value :: "string \<Rightarrow> nat" where
  "dec_value ds = (\<Sum>i < length ds. digit_val (rev ds ! i) * 10 ^ i)"


section \<open>The store\<close>

text \<open>
  The four tables, as the \<open>CREATE TABLE\<close> statements of the loaders declare them. A
  nullable column is an option, \<open>None\<close> being \<open>NULL\<close>. Rows are kept in insertion order.
  The type \<open>'f\<close> stands for the values of \<open>float\<close>, which stay abstract.
\<close>

record movie =
  m_id :: int
  title :: string
  year :: "int option"
  title_type :: "string option"
  is_adult :: "int option"
  runtime :: "int option"
  genres :: "string option"

record 'f rating =
  r_movie_id :: int
  average :: "'f option"
  num_votes :: "int option"

record person =
  p_id :: int
  name :: string
  birth :: "int option"
  death :: "int option"
  famous_movies :: "string option"

record star =
  person_id :: int
  movie_id :: int
  category :: string

record 'f db =
  movies :: "movie list"
  ratings :: "'f rating list"
  people :: "person list"
  stars :: "star list"

text \<open>The range of the column type \<open>INTEGER\<close>; a value outside it is refused by the store.\<close>

definition pg_integer :: "int \<Rightarrow> bool" where
  "pg_integer v = (- 2147483648 \<le> v \<and> v \<le> 2147483647)"

definition pg_integer_opt :: "int option \<Rightarrow> bool" where
  "pg_integer_opt v = (case v of None \<Rightarrow> True | Some i \<Rightarrow> pg_integer i)"

section \<open>Reading the dump files\<close>

text \<open>
  A row of \<open>csv.DictReader\<close> is a dictionary from column names to strings; a column
  the header lacks raises \<open>KeyError\<close>. Rows are taken to have as many fields as the
  header. The null sentinel of the dumps is a backslash followed by \<open>N\<close>.
\<close>

type_synonym row = "string \<rightharpoonup> string"

definition field :: "row \<Rightarrow> string \<Rightarrow> error + string" where
  "field row k = (case row k of None \<Rightarrow> Inl (KeyError k) | Some v \<Rightarrow> Inr v)"

definition sentinel :: string where
  "sentinel = [CHR 0x5C, CHR ''N'']"

text \<open>
  The loop of every loader: rows in file order, the first exception ends the run. The
  commits every 100000 rows do not change what the connection reads and are left out.
\<close>

fun load_rows :: "('s \<Rightarrow> row \<Rightarrow> error + 's) \<Rightarrow> 's \<Rightarrow> row list \<Rightarrow> error + 's" where
  "load_rows step s [] = Inr s"
| "load_rows step s (r # rs) =
     (case step s r of Inl e \<Rightarrow> Inl e | Inr s' \<Rightarrow> load_rows step s' rs)"

subsection \<open>make_movies\<close>

text \<open>The three numeric columns of a movie: \<open>int(v) if v.isdigit() else None\<close>.\<close>

definition digits_or_none :: "string \<Rightarrow> error + int option" where
  "digits_or_none v = (if isdigit v then then_do (int_of v) (\<lambda>i. Inr (Some i)) else Inr None)"

text \<open>The text columns: \<open>None if v == sentinel else v\<close>.\<close>

definition text_or_none :: "string \<Rightarrow> string option" where
  "text_or_none v = (if v = sentinel then None else Some v)"

definition movie_of_row :: "row \<Rightarrow> error + movie" where
  "movie_of_row row =
     then_do (field row ''tconst'') (\<lambda>tconst.
     then_do (parse_id tconst) (\<lambda>i.
     then_do (field row ''primaryTitle'') (\<lambda>t.
     then_do (field row ''startYear'') (\<lambda>startYear.
     then_do (digits_or_none startYear) (\<lambda>y.
     then_do (field row ''titleType'') (\<lambda>titleType.
     then_do (field row ''isAdult'') (\<lambda>isAdult.
     then_do (digits_or_none isAdult) (\<lambda>a.
     then_do (field row ''runtimeMinutes'') (\<lambda>runtimeMinutes.
     then_do (digits_or_none runtimeMinutes) (\<lambda>r.
     then_do (field row ''genres'') (\<lambda>g.
       Inr \<lparr>m_id = i, title = t, year = y, title_type = text_or_none titleType,
            is_adult = a, runtime = r, genres = text_or_none g\<rparr>)))))))))))"

text \<open>\<open>INSERT INTO movies\<close>: the integer columns must fit, the primary key must be new.\<close>

definition insert_movie :: "movie \<Rightarrow> movie list \<Rightarrow> error + movie list" where
  "insert_movie m ms =
     (if \<not> (pg_integer (m_id m) \<and> pg_integer_opt (year m) \<and> pg_integer_opt (is_adult m)
             \<and> pg_integer_opt (runtime m))
      then Inl NumericValueOutOfRange
      else if m_id m \<in> set (map m_id ms) then Inl UniqueViolation
      else Inr (ms @ [m]))"

definition movies_step :: "movie list \<Rightarrow> row \<Rightarrow> error + movie list" where
  "movies_step ms row = then_do (movie_of_row row) (\<lambda>m. insert_movie m ms)"

text \<open>
  The table is dropped and created anew, then filled. Dropping with \<open>CASCADE\<close> removes
  the foreign keys that point to it and leaves the rows of the other tables.
\<close>

definition make_movies :: "row list \<Rightarrow> 'f db \<Rightarrow> error + 'f db" where
  "make_movies file db =
     then_do (load_rows movies_step [] file) (\<lambda>ms. Inr (db\<lparr>movies := ms\<rparr>))"

subsection \<open>make_ratings\<close>

text \<open>
  \<open>float\<close> is a parameter: \<open>float s = None\<close> is its \<open>ValueError\<close>. A row whose movie is
  not stored is skipped before its two numeric fields are read.
\<close>

definition rating_of_row :: "(string \<Rightarrow> 'f option) \<Rightarrow> movie list \<Rightarrow> row \<Rightarrow> error + 'f rating option" where
  "rating_of_row float ms row =
     then_do (field row ''tconst'') (\<lambda>tconst.
     then_do (parse_id tconst) (\<lambda>i.
       if i \<notin> set (map m_id ms) then Inr None
       else
         then_do (field row ''averageRating'') (\<lambda>averageRating.
         then_do (if averageRating = sentinel then Inr None
                  else (case float averageRating of
                          None \<Rightarrow> Inl ValueError
                        | Some x \<Rightarrow> Inr (Some x))) (\<lambda>av.
         then_do (field row ''numVotes'') (\<lambda>numVotes.
         then_do (if numVotes = sentinel then Inr None
                  else then_do (int_of numVotes) (\<lambda>n. Inr (Some n))) (\<lambda>nv.
           Inr (Some \<lparr>r_movie_id = i, average = av, num_votes = nv\<rparr>)))))))"

definition insert_rating :: "'f rating \<Rightarrow> 'f rating list \<Rightarrow> error + 'f rating list" where
  "insert_rating r rs =
     (if \<not> (pg_integer (r_movie_id r) \<and> pg_integer_opt (num_votes r))
      then Inl NumericValueOutOfRange
      else Inr (rs @ [r]))"

definition ratings_step ::
  "(string \<Rightarrow> 'f option) \<Rightarrow> movie list \<Rightarrow> 'f rating list \<Rightarrow> row \<Rightarrow> error + 'f rating list" where
  "ratings_step float ms rs row =
     then_do (rating_of_row float ms row) (\<lambda>r.
       case r of None \<Rightarrow> Inr rs | Some r' \<Rightarrow> insert_rating r' rs)"

definition make_ratings :: "(string \<Rightarrow> 'f option) \<Rightarrow> row list \<Rightarrow> 'f db \<Rightarrow> error + 'f db" where
  "make_ratings float file db =
     then_do (load_rows (ratings_step float (movies db)) [] file) (\<lambda>rs. Inr (db\<lparr>ratings := rs\<rparr>))"

subsection \<open>make_people\<close>

definition int_or_none :: "string \<Rightarrow> error + int option" where
  "int_or_none v = (if v \<noteq> sentinel then then_do (int_of v) (\<lambda>i. Inr (Some i)) else Inr None)"

definition person_of_row :: "row \<Rightarrow> error + person" where
  "person_of_row row =
     then_do (field row ''nconst'') (\<lambda>nconst.
     then_do (parse_id nconst) (\<lambda>i.
     then_do (field row ''primaryName'') (\<lambda>n.
     then_do (field row ''birthYear'') (\<lambda>birthYear.
     then_do (int_or_none birthYear) (\<lambda>b.
     then_do (field row ''deathYear'') (\<lambda>deathYear.
     then_do (int_or_none deathYear) (\<lambda>d.
     then_do (field row ''knownForTitles'') (\<lambda>k.
       Inr \<lparr>p_id = i, name = n, birth = b, death = d,
            famous_movies = (if k \<noteq> sentinel then Some k else None)\<rparr>))))))))"

definition insert_person :: "person \<Rightarrow> person list \<Rightarrow> error + person list" where
  "insert_person p ps =
     (if \<not> (pg_integer (p_id p) \<and> pg_integer_opt (birth p) \<and> pg_integer_opt (death p))
      then Inl NumericValueOutOfRange
      else if p_id p \<in> set (map p_id ps) then Inl UniqueViolation
      else Inr (ps @ [p]))"

definition people_step :: "person list \<Rightarrow> row \<Rightarrow> error + person list" where
  "people_step ps row = then_do (person_of_row row) (\<lambda>p. insert_person p ps)"

definition make_people :: "row list \<Rightarrow> 'f db \<Rightarrow> error + 'f db" where
  "make_people file db =
     then_do (load_rows people_step [] file) (\<lambda>ps. Inr (db\<lparr>people := ps\<rparr>))"

subsection \<open>make_stars\<close>

text \<open>
  Both identifiers are parsed first. A row whose person or movie is not stored is
  skipped; a pair that is stored already is left as it is (\<open>ON CONFLICT DO NOTHING\<close>).
\<close>

definition stars_step :: "person list \<Rightarrow> movie list \<Rightarrow> star list \<Rightarrow> row \<Rightarrow> error + star list" where
  "stars_step ps ms ss row =
     then_do (field row ''nconst'') (\<lambda>nconst.
     then_do (parse_id nconst) (\<lambda>p.
     then_do (field row ''tconst'') (\<lambda>tconst.
     then_do (parse_id tconst) (\<lambda>m.
     then_do (field row ''category'') (\<lambda>c.
       if p \<notin> set (map p_id ps) then Inr ss
       else if m \<notin> set (map m_id ms) then Inr ss
       else if (p, m) \<in> set (map (\<lambda>s. (person_id s, movie_id s)) ss) then Inr ss
       else Inr (ss @ [\<lparr>person_id = p, movie_id = m, category = c\<rparr>]))))))"

definition make_stars :: "row list \<Rightarrow> 'f db \<Rightarrow> error + 'f db" where
  "make_stars file db =
     then_do (load_rows (stars_step (people db) (movies db)) [] file) (\<lambda>ss. Inr (db\<lparr>stars := ss\<rparr>))"


section \<open>SQL values and conditions\<close>

text \<open>
  A column value is \<open>NULL\<close>, an integer, a text or a number. A condition has three
  values: \<open>Some True\<close>, \<open>Some False\<close> and \<open>None\<close> (unknown); a \<open>WHERE\<close> clause selects
  the rows whose condition is \<open>Some True\<close>.
\<close>

datatype 'f sqlval = SNull | SInt int | SText string | SNum 'f

definition opt_val :: "('a \<Rightarrow> 'f sqlval) \<Rightarrow> 'a option \<Rightarrow> 'f sqlval" where
  "opt_val con v = (case v of None \<Rightarrow> SNull | Some x \<Rightarrow> con x)"

fun sql_eq :: "'f sqlval \<Rightarrow> 'f sqlval \<Rightarrow> bool option" where
  "sql_eq SNull b = None"
| "sql_eq a SNull = None"
| "sql_eq a b = Some (a = b)"

fun sql_lt :: "'f sqlval \<Rightarrow> 'f sqlval \<Rightarrow> bool option" where
  "sql_lt (SInt a) (SInt b) = Some (a < b)"
| "sql_lt a b = None"

definition sql_is_null :: "'f sqlval \<Rightarrow> bool option" where
  "sql_is_null a = Some (a = SNull)"

definition sql_or :: "bool option \<Rightarrow> bool option \<Rightarrow> bool option" where
  "sql_or a b =
     (if a = Some True \<or> b = Some True then Some True
      else if a = None \<or> b = None then None
      else Some False)"

definition sql_not :: "bool option \<Rightarrow> bool option" where
  "sql_not a = map_option Not a"

text \<open>\<open>v IN (x1, ..., xn)\<close> is \<open>v = x1 OR ... OR v = xn\<close>.\<close>

fun sql_in :: "'f sqlval \<Rightarrow> 'f sqlval list \<Rightarrow> bool option" where
  "sql_in v [] = Some False"
| "sql_in v (x # xs) = sql_or (sql_eq v x) (sql_in v xs)"

text \<open>\<open>v LIKE '%pat%'\<close> for a pattern without wildcards of its own: \<open>pat\<close> occurs in \<open>v\<close>.\<close>

fun contains :: "string \<Rightarrow> string \<Rightarrow> bool" where
  "contains pat [] = (pat = [])"
| "contains pat (c # cs) = (take (length pat) (c # cs) = pat \<or> contains pat cs)"

definition sql_like :: "'f sqlval \<Rightarrow> string \<Rightarrow> bool option" where
  "sql_like v pat = (case v of SText t \<Rightarrow> Some (contains pat t) | _ \<Rightarrow> None)"

definition selected :: "bool option \<Rightarrow> bool" where
  "selected c = (c = Some True)"

subsection \<open>Columns by name\<close>

text \<open>
  A statement names its columns; a name that no table of the statement declares is the
  error \<open>UndefinedColumn\<close>, raised before any row is read.
\<close>

definition movies_columns :: "string list" where
  "movies_columns = [''id'', ''title'', ''year'', ''title_type'', ''is_adult'', ''runtime'', ''genres'']"

definition ratings_columns :: "string list" where
  "ratings_columns = [''movie_id'', ''average'', ''num_votes'']"

definition people_columns :: "string list" where
  "people_columns = [''id'', ''name'', ''birth'', ''death'', ''famous_movies'']"

definition stars_columns :: "string list" where
  "stars_columns = [''person_id'', ''movie_id'', ''category'']"

definition resolve :: "string list \<Rightarrow> string \<Rightarrow> error + string" where
  "resolve columns c = (if c \<in> set columns then Inr c else Inl (UndefinedColumn c))"

definition movie_val :: "movie \<Rightarrow> string \<Rightarrow> 'f sqlval" where
  "movie_val m c =
     (if c = ''id'' then SInt (m_id m)
      else if c = ''title'' then SText (title m)
      else if c = ''year'' then opt_val SInt (year m)
      else if c = ''title_type'' then opt_val SText (title_type m)
      else if c = ''is_adult'' then opt_val SInt (is_adult m)
      else if c = ''runtime'' then opt_val SInt (runtime m)
      else if c = ''genres'' then opt_val SText (genres m)
      else SNull)"

definition rating_val :: "'f rating \<Rightarrow> string \<Rightarrow> 'f sqlval" where
  "rating_val r c =
     (if c = ''movie_id'' then SInt (r_movie_id r)
      else if c = ''average'' then opt_val SNum (average r)
      else if c = ''num_votes'' then opt_val SInt (num_votes r)
      else SNull)"

definition person_val :: "person \<Rightarrow> string \<Rightarrow> 'f sqlval" where
  "person_val p c =
     (if c = ''id'' then SInt (p_id p)
      else if c = ''name'' then SText (name p)
      else if c = ''birth'' then opt_val SInt (birth p)
      else if c = ''death'' then opt_val SInt (death p)
      else if c = ''famous_movies'' then opt_val SText (famous_movies p)
      else SNull)"

definition star_val :: "star \<Rightarrow> string \<Rightarrow> 'f sqlval" where
  "star_val s c =
     (if c = ''person_id'' then SInt (person_id s)
      else if c = ''movie_id'' then SInt (movie_id s)
      else if c = ''category'' then SText (category s)
      else SNull)"

text \<open>
  \<open>a LEFT JOIN b ON ...\<close>: every row of \<open>a\<close> with each matching row of \<open>b\<close>, or once with
  none, where the columns of \<open>b\<close> are \<open>NULL\<close>.
\<close>

definition left_join :: "('a \<Rightarrow> 'b \<Rightarrow> bool) \<Rightarrow> 'a list \<Rightarrow> 'b list \<Rightarrow> ('a \<times> 'b option) list" where
  "left_join on as bs =
     concat (map (\<lambda>a. case filter (on a) bs of
                         [] \<Rightarrow> [(a, None)]
                       | ms \<Rightarrow> map (\<lambda>b. (a, Some b)) ms) as)"

definition movie_rating_val :: "movie \<times> 'f rating option \<Rightarrow> string \<Rightarrow> 'f sqlval" where
  "movie_rating_val j c =
     (if c \<in> set movies_columns then movie_val (fst j) c
      else case snd j of None \<Rightarrow> SNull | Some r \<Rightarrow> rating_val r c)"

definition person_star_val :: "person \<times> star option \<Rightarrow> string \<Rightarrow> 'f sqlval" where
  "person_star_val j c =
     (if c \<in> set people_columns then person_val (fst j) c
      else case snd j of None \<Rightarrow> SNull | Some s \<Rightarrow> star_val s c)"

section \<open>clean_data\<close>

text \<open>
  Deleting movies removes, through \<open>ON DELETE CASCADE\<close>, the ratings and the stars
  rows that reference them; deleting people removes their stars rows.
\<close>

definition delete_movies_where :: "(movie \<Rightarrow> bool) \<Rightarrow> 'f db \<Rightarrow> 'f db" where
  "delete_movies_where P db =
     (let gone = map m_id (filter P (movies db))
      in db\<lparr>movies := filter (\<lambda>m. \<not> P m) (movies db),
             ratings := filter (\<lambda>r. r_movie_id r \<notin> set gone) (ratings db),
             stars := filter (\<lambda>s. movie_id s \<notin> set gone) (stars db)\<rparr>)"

definition delete_people_where :: "(person \<Rightarrow> bool) \<Rightarrow> 'f db \<Rightarrow> 'f db" where
  "delete_people_where P db =
     (let gone = map p_id (filter P (people db))
      in db\<lparr>people := filter (\<lambda>p. \<not> P p) (people db),
             stars := filter (\<lambda>s. person_id s \<notin> set gone) (stars db)\<rparr>)"

text \<open>\<open>DELETE FROM movies WHERE is_adult = 1\<close>\<close>

definition delete_adult :: "'f db \<Rightarrow> error + 'f db" where
  "delete_adult db =
     then_do (resolve movies_columns ''is_adult'') (\<lambda>c.
       Inr (delete_movies_where
              (\<lambda>m. selected (sql_eq (movie_val m c :: 'f sqlval) (SInt 1))) db))"

text \<open>\<open>DELETE FROM movies WHERE title_type NOT IN ('movie', 'short', 'tvSeries', 'tvMiniSeries')\<close>\<close>

definition retained_types :: "string list" where
  "retained_types = [''movie'', ''short'', ''tvSeries'', ''tvMiniSeries'']"

definition delete_title_type :: "'f db \<Rightarrow> error + 'f db" where
  "delete_title_type db =
     then_do (resolve movies_columns ''title_type'') (\<lambda>c.
       Inr (delete_movies_where
              (\<lambda>m. selected (sql_not (sql_in (movie_val m c :: 'f sqlval) (map SText retained_types)))) db))"

text \<open>
  \<open>DELETE FROM movies WHERE id IN (SELECT id FROM movies LEFT JOIN ratings ON id = movie_id
  WHERE num_ratings IS NULL OR num_ratings < 20)\<close>
\<close>

definition delete_few_votes :: "'f db \<Rightarrow> error + 'f db" where
  "delete_few_votes db =
     then_do (resolve (movies_columns @ ratings_columns) ''num_ratings'') (\<lambda>c.
       let ids = map (\<lambda>j. m_id (fst j))
                   (filter (\<lambda>j. selected (sql_or (sql_is_null (movie_rating_val j c))
                                                  (sql_lt (movie_rating_val j c) (SInt 20))))
                      (left_join (\<lambda>m r. m_id m = r_movie_id r) (movies db) (ratings db)))
       in Inr (delete_movies_where (\<lambda>m. m_id m \<in> set ids) db))"

text \<open>
  \<open>DELETE FROM movies WHERE id IN (SELECT id FROM movies WHERE genres LIKE '%News%'
  OR genres LIKE '%Talk-Show%' OR genres LIKE '%Reality-TV%' OR genres LIKE '%Adult%')\<close>
\<close>

definition delete_genres :: "'f db \<Rightarrow> error + 'f db" where
  "delete_genres db =
     then_do (resolve movies_columns ''genres'') (\<lambda>c.
       let ids = map m_id
                   (filter (\<lambda>m. selected
                              (sql_or (sql_or (sql_or (sql_like (movie_val m c :: 'f sqlval) ''News'')
                                                      (sql_like (movie_val m c :: 'f sqlval) ''Talk-Show''))
                                              (sql_like (movie_val m c :: 'f sqlval) ''Reality-TV''))
                                      (sql_like (movie_val m c :: 'f sqlval) ''Adult'')))
                      (movies db))
       in Inr (delete_movies_where (\<lambda>m. m_id m \<in> set ids) db))"

text \<open>
  \<open>DELETE FROM people WHERE id IN (SELECT id FROM people LEFT JOIN stars ON id = person_id
  WHERE movie_id IS NULL)\<close>
\<close>

definition delete_isolated :: "'f db \<Rightarrow> error + 'f db" where
  "delete_isolated db =
     then_do (resolve (people_columns @ stars_columns) ''movie_id'') (\<lambda>c.
       let ids = map (\<lambda>j. p_id (fst j))
                   (filter (\<lambda>j. selected (sql_is_null (person_star_val j c :: 'f sqlval)))
                      (left_join (\<lambda>p s. p_id p = person_id s) (people db) (stars db)))
       in Inr (delete_people_where (\<lambda>p. p_id p \<in> set ids) db))"

text \<open>
  The five statements in the order of the source; the first exception ends the run,
  and \<open>clean_data\<close> commits nothing.
\<close>

definition clean_data :: "'f db \<Rightarrow> error + 'f db" where
  "clean_data db =
     then_do (delete_adult db) (\<lambda>db1.
     then_do (delete_title_type db1) (\<lambda>db2.
     then_do (delete_few_votes db2) (\<lambda>db3.
     then_do (delete_genres db3) (\<lambda>db4.
       delete_isolated db4))))"

subsection \<open>clean_data on a connection\<close>

text \<open>
  What a connection holds: the committed store, the store as its open transaction
  sees it, the state of that transaction, and whether it commits each statement by
  itself. A statement that raises changes no row. With autocommit each statement is
  a transaction of its own; without, a statement that raises leaves the transaction
  failed, and every later statement raises \<open>InFailedSqlTransaction\<close> until a
  rollback. \<open>execute\<close> gives the exception, if any, and the connection after.
\<close>

datatype tx_status = Idle | InTransaction | Failed

record 'f connection =
  committed :: "'f db"
  working :: "'f db"
  status :: tx_status
  autocommit :: bool

definition execute ::
  "('f db \<Rightarrow> error + 'f db) \<Rightarrow> 'f connection \<Rightarrow> error option \<times> 'f connection" where
  "execute statement con =
     (if autocommit con
      then case statement (working con) of
             Inl e \<Rightarrow> (Some e, con)
           | Inr db' \<Rightarrow> (None, con\<lparr>committed := db', working := db'\<rparr>)
      else if status con = Failed then (Some InFailedSqlTransaction, con)
      else case statement (working con) of
             Inl e \<Rightarrow> (Some e, con\<lparr>status := Failed\<rparr>)
           | Inr db' \<Rightarrow> (None, con\<lparr>working := db', status := InTransaction\<rparr>))"

fun execute_all ::
  "('f db \<Rightarrow> error + 'f db) list \<Rightarrow> 'f connection \<Rightarrow> error option \<times> 'f connection" where
  "execute_all [] con = (None, con)"
| "execute_all (statement # rest) con =
     (case execute statement con of
        (Some e, con') \<Rightarrow> (Some e, con')
      | (None, con') \<Rightarrow> execute_all rest con')"

definition rollback :: "'f connection \<Rightarrow> 'f connection" where
  "rollback con = con\<lparr>working := committed con, status := Idle\<rparr>"

text \<open>
  \<open>psycopg2.connect\<close>, as the main program calls it: no transaction is open and
  autocommit is off. Closing a connection, or the end of the program, rolls back.
\<close>

definition connect :: "'f db \<Rightarrow> 'f connection" where
  "connect db = \<lparr>committed = db, working = db, status = Idle, autocommit = False\<rparr>"

text \<open>
  \<open>clean_data\<close> with its connection: the same five statements, each through
  \<open>cur.execute\<close>; no commit follows them.
\<close>

definition clean_data_on :: "'f connection \<Rightarrow> error option \<times> 'f connection" where
  "clean_data_on con =
     execute_all [delete_adult, delete_title_type, delete_few_votes, delete_genres,
                  delete_isolated] con"

text \<open>The files of one dump, and the full cycle: the four loaders, then \<open>clean_data\<close>.\<close>

record dump =
  movies_tsv :: "row list"
  ratings_tsv :: "row list"
  names_tsv :: "row list"
  stars_tsv :: "row list"

definition full_load :: "(string \<Rightarrow> 'f option) \<Rightarrow> dump \<Rightarrow> 'f db \<Rightarrow> error + 'f db" where
  "full_load float d db =
     then_do (make_movies (movies_tsv d) db) (\<lambda>db1.
     then_do (make_ratings float (ratings_tsv d) db1) (\<lambda>db2.
     then_do (make_people (names_tsv d) db2) (\<lambda>db3.
       make_stars (stars_tsv d) db3)))"

definition load_and_clean :: "(string \<Rightarrow> 'f option) \<Rightarrow> dump \<Rightarrow> 'f db \<Rightarrow> error + 'f db" where
  "load_and_clean float d db = then_do (full_load float d db) clean_data"


section \<open>Resolving a person\<close>

text \<open>\<open>check_for_id\<close>: the input read as an integer, then the person with that id, if exactly one.\<close>

definition check_for_id :: "'f db \<Rightarrow> string \<Rightarrow> person option" where
  "check_for_id db input =
     (case py_int input of
        None \<Rightarrow> None
      | Some i \<Rightarrow> (case filter (\<lambda>p. p_id p = i) (people db) of [p] \<Rightarrow> Some p | _ \<Rightarrow> None))"

text \<open>\<open>s.split(',')\<close> and \<open>', '.join(xs)\<close>.\<close>

fun split_on :: "char \<Rightarrow> string \<Rightarrow> string list" where
  "split_on sep [] = [[]]"
| "split_on sep (c # cs) =
     (if c = sep then [] # split_on sep cs
      else (case split_on sep cs of [] \<Rightarrow> [[c]] | x # xs \<Rightarrow> (c # x) # xs))"

fun join :: "string \<Rightarrow> string list \<Rightarrow> string" where
  "join sep [] = []"
| "join sep [x] = x"
| "join sep (x # y # ys) = x @ sep @ join sep (y # ys)"

text \<open>A list comprehension whose element expression may raise.\<close>

fun map_err :: "('a \<Rightarrow> error + 'b) \<Rightarrow> 'a list \<Rightarrow> error + 'b list" where
  "map_err f [] = Inr []"
| "map_err f (x # xs) = then_do (f x) (\<lambda>y. then_do (map_err f xs) (\<lambda>ys. Inr (y # ys)))"

text \<open>
  \<open>get_most_famous\<close> returns \<open>False\<close> (here \<open>None\<close>) for the sentinel and for \<open>None\<close>, and
  otherwise the titles of the stored movies among the known-for identifiers, joined;
  the empty string when none is stored.
\<close>

definition get_most_famous :: "'f db \<Rightarrow> string option \<Rightarrow> error + string option" where
  "get_most_famous db string_titles =
     (case string_titles of
        None \<Rightarrow> Inr None
      | Some s \<Rightarrow>
          if s = sentinel then Inr None
          else
            then_do (map_err (\<lambda>m_id. int_of (drop 2 m_id)) (split_on CHR '','' s)) (\<lambda>result.
              let list_titles = map title (filter (\<lambda>m. m_id m \<in> set result) (movies db))
              in Inr (Some (if list_titles \<noteq> [] then join '', '' list_titles else []))))"

text \<open>\<open>ORDER BY LENGTH(famous_movies) ASC\<close>: ascending, the rows where it is \<open>NULL\<close> last.\<close>

definition known_for_length :: "person \<Rightarrow> nat" where
  "known_for_length p = (case famous_movies p of None \<Rightarrow> 0 | Some s \<Rightarrow> length s)"

definition order_by_length :: "person list \<Rightarrow> person list" where
  "order_by_length ps =
     sort_key known_for_length (filter (\<lambda>p. famous_movies p \<noteq> None) ps)
     @ filter (\<lambda>p. famous_movies p = None) ps"

text \<open>
  The loop that prints the candidates: a person whose \<open>get_most_famous\<close> is \<open>False\<close> or
  the empty string is passed over. The result lists the printed people with their titles.
\<close>

fun show_candidates :: "'f db \<Rightarrow> person list \<Rightarrow> error + (person \<times> string) list" where
  "show_candidates db [] = Inr []"
| "show_candidates db (p # ps) =
     then_do (get_most_famous db (famous_movies p)) (\<lambda>famous_list.
     then_do (show_candidates db ps) (\<lambda>rest.
       Inr (case famous_list of
              None \<Rightarrow> rest
            | Some t \<Rightarrow> if t = [] then rest else (p, t) # rest)))"

text \<open>
  \<open>check_name\<close>. The regular expression matching of the store is a parameter: \<open>regex pat\<close>
  is \<open>None\<close> for a pattern the store refuses, else the set of names the pattern matches
  without regard to case. The query result is \<open>name_search\<close>; the function yields what it
  printed of the candidates and what it returns.
\<close>

definition name_pattern :: "string \<Rightarrow> string" where
  "name_pattern input_name =
     ''(?:^|'' @ [CHR 0x5C] @ ''s)'' @ py_strip input_name @ ''(?:$|'' @ [CHR 0x5C] @ ''s)''"

definition name_search :: "(string \<Rightarrow> bool) \<Rightarrow> 'f db \<Rightarrow> person list" where
  "name_search matches db = order_by_length (filter (\<lambda>p. matches (name p)) (people db))"

definition check_name ::
  "(string \<Rightarrow> (string \<Rightarrow> bool) option) \<Rightarrow> 'f db \<Rightarrow> string
     \<Rightarrow> error + ((person \<times> string) list \<times> person option)" where
  "check_name regex db input_name =
     (case regex (name_pattern input_name) of
        None \<Rightarrow> Inl InvalidRegularExpression
      | Some matches \<Rightarrow>
          (case name_search matches db of
             [] \<Rightarrow> Inr ([], None)
           | [p] \<Rightarrow> Inr ([], Some p)
           | result \<Rightarrow> then_do (show_candidates db result) (\<lambda>shown. Inr (shown, None))))"

section \<open>Finding a path\<close>

text \<open>
  \<open>find_contacts\<close>: the distinct people who share a movie with the given one, that one
  excluded. The query fixes no order of its rows; they are taken here in the order of
  the nested join, and the properties proved of \<open>solve\<close> for every store use the set
  of the rows alone.
\<close>

definition find_contacts :: "'f db \<Rightarrow> int \<Rightarrow> int list" where
  "find_contacts db i_id =
     remdups (concat (map (\<lambda>s1. map person_id
                                   (filter (\<lambda>s2. movie_id s1 = movie_id s2 \<and> person_id s2 \<noteq> i_id)
                                      (stars db)))
                        (filter (\<lambda>s1. person_id s1 = i_id) (stars db))))"

text \<open>
  \<open>solve\<close> ends in one of three ways: it returns a list, it falls out of the loop and
  returns \<open>None\<close>, or \<open>sys.exit\<close> ends the program.
\<close>

datatype outcome = Path "int list" | NoPath | Aborted

function solve_loop ::
  "'f db \<Rightarrow> int \<Rightarrow> int \<Rightarrow> (int \<times> int list) list \<Rightarrow> int \<Rightarrow> int set \<Rightarrow> outcome" where
  "solve_loop db target max_nodes [] nodes_visited visited_ids = NoPath"
| "solve_loop db target max_nodes ((current_node, current_path) # queue) nodes_visited visited_ids =
     (if nodes_visited + 1 > max_nodes then Aborted
      else if current_node \<in> visited_ids
        then solve_loop db target max_nodes queue (nodes_visited + 1) visited_ids
      else if target \<in> set (find_contacts db current_node)
        then Path ([target, current_node] @ current_path)
      else solve_loop db target max_nodes
             (queue @ map (\<lambda>contact. (contact, current_node # current_path))
                        (filter (\<lambda>contact. contact \<notin> insert current_node visited_ids)
                           (find_contacts db current_node)))
             (nodes_visited + 1) (insert current_node visited_ids))"
  by pat_completeness auto
termination
  by (relation "measure (\<lambda>(db, target, max_nodes, queue, nodes_visited, visited_ids).
                           nat (max_nodes - nodes_visited))") auto

definition solve :: "'f db \<Rightarrow> int \<Rightarrow> int \<Rightarrow> int \<Rightarrow> outcome" where
  "solve db start_node target max_nodes = solve_loop db target max_nodes [(start_node, [])] 0 {}"

definition default_max_nodes :: int where
  "default_max_nodes = 1000000"

section \<open>Notions of the specification\<close>


text \<open>
  The known-for titles of a person resolve when one of the listed identifiers is the
  id of a stored movie.
\<close>

definition known_for_resolves :: "'f db \<Rightarrow> person \<Rightarrow> bool" where
  "known_for_resolves db p =
     (case famous_movies p of
        None \<Rightarrow> False
      | Some s \<Rightarrow> s \<noteq> sentinel
          \<and> list_ex (\<lambda>x. list_ex (\<lambda>m. int_of (drop 2 x) = Inr (m_id m)) (movies db))
               (split_on CHR '','' s))"

text \<open>
  The co-appearance graph: two distinct people are joined when some movie has a stars
  row for each of them. A walk is a list of people in which neighbours are joined.
\<close>

definition co_appear :: "'f db \<Rightarrow> int \<Rightarrow> int \<Rightarrow> bool" where
  "co_appear db a b =
     (a \<noteq> b \<and> list_ex (\<lambda>s1. person_id s1 = a
                   \<and> list_ex (\<lambda>s2. person_id s2 = b \<and> movie_id s2 = movie_id s1) (stars db))
                 (stars db))"

fun walk :: "'f db \<Rightarrow> int list \<Rightarrow> bool" where
  "walk db [] = True"
| "walk db [a] = True"
| "walk db (a # b # rest) = (co_appear db a b \<and> walk db (b # rest))"

text \<open>\<open>hops db a k b\<close>: some walk of \<open>k\<close> steps leads from \<open>a\<close> to \<open>b\<close>.\<close>

inductive hops :: "'f db \<Rightarrow> int \<Rightarrow> nat \<Rightarrow> int \<Rightarrow> bool" for db :: "'f db" and a :: int where
  hops_here: "hops db a 0 a"
| hops_step: "hops db a k b \<Longrightarrow> co_appear db b c \<Longrightarrow> hops db a (Suc k) c"

text \<open>
  \<open>connects db q a b\<close>: the walk \<open>q\<close> leads from \<open>a\<close> to \<open>b\<close>; it has one person more
  than it has steps. The component of a person holds whoever some walk leads to.
\<close>

definition connects :: "'f db \<Rightarrow> int list \<Rightarrow> int \<Rightarrow> int \<Rightarrow> bool" where
  "connects db q a b = (walk db q \<and> q \<noteq> [] \<and> hd q = a \<and> last q = b)"


text \<open>
  A ceiling that the search cannot reach: one more than the number of ordered pairs
  of joined people.
\<close>

definition search_bound :: "'f db \<Rightarrow> int" where
  "search_bound db =
     1 + int (sum_list (map (\<lambda>u. length (find_contacts db u)) (remdups (map person_id (stars db)))))"

text \<open>
  A measure of the work left: the entries still queued, and the contacts of the people
  not yet visited.
\<close>

definition search_potential :: "'f db \<Rightarrow> (int \<times> int list) list \<Rightarrow> int set \<Rightarrow> nat" where
  "search_potential db queue visited =
     length queue
     + sum_list (map (\<lambda>u. length (find_contacts db u))
                  (filter (\<lambda>u. u \<notin> visited) (remdups (map person_id (stars db)))))"

text \<open>
  What holds of the queue and the visited set each time the loop of \<open>solve\<close> is
  entered. An entry holds a person and the walk back from its predecessor to the start;
  the entries are ordered by the length of that walk and span at most two lengths;
  no visited person is joined to the target; whoever is joined to a visited person is
  visited or queued; whoever can be reached in fewer steps than the first entry's
  length is visited, and whoever can be reached in exactly as many is visited or
  queued with that length.
\<close>

definition bfs_inv :: "'f db \<Rightarrow> int \<Rightarrow> int \<Rightarrow> (int \<times> int list) list \<Rightarrow> int set \<Rightarrow> bool" where
  "bfs_inv db start target queue visited \<longleftrightarrow>
     (\<forall>e\<in>set queue. walk db (fst e # snd e) \<and> last (fst e # snd e) = start)
     \<and> sorted (map (\<lambda>e. length (snd e)) queue)
     \<and> (\<forall>e\<in>set queue. length (snd e) \<le> Suc (length (snd (hd queue))))
     \<and> (\<forall>u\<in>visited. \<not> co_appear db u target)
     \<and> (\<forall>u\<in>visited. \<forall>w. co_appear db u w \<longrightarrow> w \<in> visited \<or> w \<in> fst ` set queue)
     \<and> (start \<in> visited \<or> start \<in> fst ` set queue)
     \<and> (queue \<noteq> [] \<longrightarrow>
          (\<forall>k u. hops db start k u \<and> k < length (snd (hd queue)) \<longrightarrow> u \<in> visited))
     \<and> (queue \<noteq> [] \<longrightarrow>
          (\<forall>u. hops db start (length (snd (hd queue))) u \<longrightarrow>
               u \<in> visited \<or> (\<exists>p. (u, p) \<in> set queue \<and> length p = length (snd (hd queue)))))"

section \<open>Fixtures\<close>

text \<open>
  Three people who share a first name: one without known-for titles, one with two and
  one with five, in a store that holds the first two of those movies.
\<close>

definition chris_zero :: person where
  "chris_zero = \<lparr>p_id = 10, name = ''Chris Zero'', birth = None, death = None,
                  famous_movies = None\<rparr>"

definition chris_five :: person where
  "chris_five = \<lparr>p_id = 11, name = ''Chris Five'', birth = Some 1970, death = None,
                  famous_movies = Some ''tt0000001,tt0000002,tt0000003,tt0000004,tt0000005''\<rparr>"

definition chris_two :: person where
  "chris_two = \<lparr>p_id = 12, name = ''Chris Two'', birth = None, death = None,
                 famous_movies = Some ''tt0000001,tt0000002''\<rparr>"

definition plain_movie :: "int \<Rightarrow> string \<Rightarrow> movie" where
  "plain_movie i t = \<lparr>m_id = i, title = t, year = None, title_type = Some ''movie'',
                       is_adult = Some 0, runtime = None, genres = None\<rparr>"

definition resolver_fixture :: "unit db" where
  "resolver_fixture =
     \<lparr>movies = [plain_movie 1 ''M1'', plain_movie 2 ''M2''], ratings = [],
       people = [chris_zero, chris_five, chris_two,
                 \<lparr>p_id = 13, name = ''Robin One'', birth = None, death = None,
                   famous_movies = Some ''tt0000001''\<rparr>],
       stars = []\<rparr>"

text \<open>Two people of one name, neither with known-for titles.\<close>

definition namesake_fixture :: "unit db" where
  "namesake_fixture =
     \<lparr>movies = [plain_movie 1 ''M1''], ratings = [],
       people = [chris_zero,
                 \<lparr>p_id = 20, name = ''Chris Zero'', birth = Some 1980, death = None,
                   famous_movies = None\<rparr>],
       stars = []\<rparr>"

text \<open>
  The graph with the edges A - M1 - B and B - M2 - C (A, B, C are the people 1, 2, 3;
  M1, M2 the movies 10, 20), and the same with a second component (people 4 and 5 in
  movie 30).
\<close>

definition edge :: "int \<Rightarrow> int \<Rightarrow> star" where
  "edge p m = \<lparr>person_id = p, movie_id = m, category = ''actor''\<rparr>"

definition chain_fixture :: "unit db" where
  "chain_fixture =
     \<lparr>movies = [], ratings = [], people = [],
       stars = [edge 1 10, edge 2 10, edge 2 20, edge 3 20]\<rparr>"

definition two_component_fixture :: "unit db" where
  "two_component_fixture =
     \<lparr>movies = [], ratings = [], people = [],
       stars = [edge 1 10, edge 2 10, edge 2 20, edge 3 20, edge 4 30, edge 5 30]\<rparr>"

section \<open>Properties of the loaders\<close>

subsection \<open>Parsing integers and identifiers\<close>

lemma then_do_Inl [simp]: "then_do (Inl e) f = Inl e"
  by (simp add: then_do_def)

lemma then_do_Inr [simp]: "then_do (Inr v) f = f v"
  by (simp add: then_do_def)

lemma then_do_fails: "(\<And>v. \<exists>e. f v = Inl e) \<Longrightarrow> \<exists>e. then_do m f = Inl e"
  by (cases m) auto



lemma underscore_not_decimal [simp]: "\<not> is_decimal (CHR ''_'')"
  by (simp add: is_decimal_def)

lemma sign_not_space [simp]: "\<not> int_isspace (CHR ''+'')" "\<not> int_isspace (CHR ''-'')"
  by (simp_all add: int_isspace_def)


lemma dec_value_Nil [simp]: "dec_value [] = 0"
  by (simp add: dec_value_def)





text \<open>Digit groups with an underscore before each group but the first.\<close>

lemma join_Cons: "join sep (g # gs) = g @ concat (map ((@) sep) gs)"
  by (induction gs arbitrary: g) auto















subsection \<open>A row that raises ends the load\<close>


lemma field_Some [simp]: "row k = Some v \<Longrightarrow> field row k = Inr v"
  by (simp add: field_def)

lemma field_cases: "(\<exists>v. row k = Some v \<and> field row k = Inr v) \<or> field row k = Inl (KeyError k)"
  by (cases "row k") (simp_all add: field_def)
















lemmas parse_defs =
  parse_id_def int_of_def py_int_def int_strip_def int_isspace_def py_strip_def py_isspace_def
  py_unsigned_def int_max_str_digits_def is_decimal_def digit_val_def isdigit_def
  isdigit_char_def sentinel_def



subsection \<open>Numeric fields\<close>











lemma then_do_InrD: "then_do m f = Inr y \<Longrightarrow> \<exists>v. m = Inr v \<and> f v = Inr y"
  by (cases m) auto







lemmas loader_defs =
  field_def digits_or_none_def text_or_none_def int_or_none_def
  movie_of_row_def insert_movie_def movies_step_def make_movies_def
  rating_of_row_def insert_rating_def ratings_step_def make_ratings_def
  person_of_row_def insert_person_def people_step_def make_people_def
  stars_step_def make_stars_def pg_integer_def pg_integer_opt_def




section \<open>Properties of clean_data\<close>

lemmas sql_defs =
  resolve_def movies_columns_def ratings_columns_def people_columns_def stars_columns_def
  movie_val_def rating_val_def person_val_def star_val_def opt_val_def
  sql_is_null_def sql_or_def sql_not_def sql_like_def selected_def retained_types_def

lemma delete_adult_ok:
  "delete_adult db = Inr (delete_movies_where
      (\<lambda>m. selected (sql_eq (movie_val m ''is_adult'' :: 'f sqlval) (SInt 1))) (db :: 'f db))"
  by (simp add: delete_adult_def resolve_def movies_columns_def)

lemma delete_title_type_ok:
  "delete_title_type db = Inr (delete_movies_where
      (\<lambda>m. selected (sql_not (sql_in (movie_val m ''title_type'' :: 'f sqlval)
                                   (map SText retained_types)))) (db :: 'f db))"
  by (simp add: delete_title_type_def resolve_def movies_columns_def)

lemma delete_few_votes_fails: "delete_few_votes db = Inl (UndefinedColumn ''num_ratings'')"
  by (simp add: delete_few_votes_def resolve_def movies_columns_def ratings_columns_def)

text \<open>
  C10. A movie whose title category is \<open>NULL\<close> is not selected by the \<open>NOT IN\<close>
  condition of the title-category statement, and it is still in the movies table when
  that statement has run.
\<close>

theorem null_title_type_survives:
  "m \<in> set (movies db) \<and> title_type m = None \<longrightarrow>
     \<not> selected (sql_not (sql_in (movie_val m ''title_type'' :: 'f sqlval) (map SText retained_types)))
     \<and> (\<exists>db'. delete_title_type (db :: 'f db) = Inr db' \<and> m \<in> set (movies db'))"
proof (intro impI)
  assume a: "m \<in> set (movies db) \<and> title_type m = None"
  then have "movie_val m ''title_type'' = (SNull :: 'f sqlval)"
    by (simp add: movie_val_def opt_val_def)
  then have n: "\<not> selected (sql_not (sql_in (movie_val m ''title_type'' :: 'f sqlval)
                   (map SText retained_types)))"
    by (simp add: retained_types_def sql_or_def sql_not_def selected_def)
  then have "m \<in> set (movies (delete_movies_where
      (\<lambda>m. selected (sql_not (sql_in (movie_val m ''title_type'' :: 'f sqlval)
                                   (map SText retained_types)))) db))"
    using a by (simp add: delete_movies_where_def Let_def)
  then show "\<not> selected (sql_not (sql_in (movie_val m ''title_type'' :: 'f sqlval) (map SText retained_types)))
     \<and> (\<exists>db'. delete_title_type db = Inr db' \<and> m \<in> set (movies db'))"
    using n by (simp add: delete_title_type_ok)
qed

theorem null_title_type_survives_witness:
  "\<exists>db'. delete_title_type
       (\<lparr>movies = [\<lparr>m_id = 7, title = ''T'', year = None, title_type = None, is_adult = Some 0,
                     runtime = None, genres = None\<rparr>,
                   \<lparr>m_id = 8, title = ''V'', year = None, title_type = Some ''videoGame'',
                     is_adult = Some 0, runtime = None, genres = None\<rparr>],
         ratings = [], people = [], stars = []\<rparr> :: unit db) = Inr db'
     \<and> \<lparr>m_id = 7, title = ''T'', year = None, title_type = None, is_adult = Some 0,
          runtime = None, genres = None\<rparr> \<in> set (movies db')"
proof -
  let ?m = "\<lparr>m_id = 7, title = ''T'', year = None, title_type = None, is_adult = Some 0,
                     runtime = None, genres = None\<rparr>"
  let ?v = "\<lparr>m_id = 8, title = ''V'', year = None, title_type = Some ''videoGame'',
                     is_adult = Some 0, runtime = None, genres = None\<rparr>"
  let ?db = "\<lparr>movies = [?m, ?v], ratings = [], people = [], stars = []\<rparr> :: unit db"
  have h: "?m \<in> set (movies ?db) \<and> title_type ?m = None" by simp
  note c = null_title_type_survives [of ?m ?db, rule_format, OF h, THEN conjunct2]
  then show ?thesis .
qed

lemma clean_data_fails: "clean_data db = Inl (UndefinedColumn ''num_ratings'')"
  by (simp add: clean_data_def delete_adult_ok delete_title_type_ok delete_few_votes_fails)

text \<open>
  C3 at a store with one movie of five votes: the vote-count statement names a column
  \<open>num_ratings\<close> that neither table has (the ratings table declares \<open>num_votes\<close>), so
  the statement raises and \<open>clean_data\<close> with it; no movie is deleted.
\<close>

theorem vote_rule_undefined_column:
  "delete_few_votes
     (\<lparr>movies = [\<lparr>m_id = 1, title = ''A'', year = Some 1999, title_type = Some ''movie'',
                   is_adult = Some 0, runtime = Some 90, genres = Some ''Drama''\<rparr>],
       ratings = [\<lparr>r_movie_id = 1, average = None, num_votes = Some 5\<rparr>],
       people = [], stars = []\<rparr> :: unit db) = Inl (UndefinedColumn ''num_ratings'')
   \<and> clean_data
     (\<lparr>movies = [\<lparr>m_id = 1, title = ''A'', year = Some 1999, title_type = Some ''movie'',
                   is_adult = Some 0, runtime = Some 90, genres = Some ''Drama''\<rparr>],
       ratings = [\<lparr>r_movie_id = 1, average = None, num_votes = Some 5\<rparr>],
       people = [], stars = []\<rparr> :: unit db) = Inl (UndefinedColumn ''num_ratings'')"
  by (simp add: clean_data_fails delete_few_votes_fails)

subsection \<open>Running clean_data twice\<close>

lemma delete_movies_where_none:
  assumes "\<forall>m\<in>set (movies db). \<not> P m"
  shows "delete_movies_where P db = db"
proof -
  have "filter P (movies db) = []" using assms by (simp add: filter_empty_conv)
  moreover have "filter (\<lambda>m. \<not> P m) (movies db) = movies db"
    using assms by (simp add: filter_id_conv)
  ultimately show ?thesis by (simp add: delete_movies_where_def)
qed

lemma movies_delete_movies_where:
  "movies (delete_movies_where P db) = filter (\<lambda>m. \<not> P m) (movies db)"
  by (simp add: delete_movies_where_def Let_def)

lemma delete_movies_where_again:
  "delete_movies_where P (delete_movies_where Q (delete_movies_where P db))
     = delete_movies_where Q (delete_movies_where P db)"
  "delete_movies_where Q (delete_movies_where Q db) = delete_movies_where Q db"
  by (intro delete_movies_where_none, simp add: movies_delete_movies_where)+

lemma execute_all_raises:
  assumes "\<And>db. s1 db = Inr (delete_movies_where P db)"
    and "\<And>db. s2 db = Inr (delete_movies_where Q db)"
    and "\<And>db. s3 db = Inl e"
  shows "execute_all (s1 # s2 # s3 # rest) con =
     (if autocommit con
      then (Some e,
            con\<lparr>committed := delete_movies_where Q (delete_movies_where P (working con)),
                working := delete_movies_where Q (delete_movies_where P (working con))\<rparr>)
      else if status con = Failed then (Some InFailedSqlTransaction, con)
      else (Some e,
            con\<lparr>working := delete_movies_where Q (delete_movies_where P (working con)),
                status := Failed\<rparr>))"
  by (simp add: execute_def assms)

lemma clean_data_on_result:
  "clean_data_on (con :: 'f connection) =
     (if autocommit con
      then (Some (UndefinedColumn ''num_ratings''),
            con\<lparr>committed := delete_movies_where
                     (\<lambda>m. selected (sql_not (sql_in (movie_val m ''title_type'' :: 'f sqlval)
                                                  (map SText retained_types))))
                     (delete_movies_where
                        (\<lambda>m. selected (sql_eq (movie_val m ''is_adult'' :: 'f sqlval) (SInt 1)))
                        (working con)),
                working := delete_movies_where
                     (\<lambda>m. selected (sql_not (sql_in (movie_val m ''title_type'' :: 'f sqlval)
                                                  (map SText retained_types))))
                     (delete_movies_where
                        (\<lambda>m. selected (sql_eq (movie_val m ''is_adult'' :: 'f sqlval) (SInt 1)))
                        (working con))\<rparr>)
      else if status con = Failed then (Some InFailedSqlTransaction, con)
      else (Some (UndefinedColumn ''num_ratings''),
            con\<lparr>working := delete_movies_where
                     (\<lambda>m. selected (sql_not (sql_in (movie_val m ''title_type'' :: 'f sqlval)
                                                  (map SText retained_types))))
                     (delete_movies_where
                        (\<lambda>m. selected (sql_eq (movie_val m ''is_adult'' :: 'f sqlval) (SInt 1)))
                        (working con)),
                status := Failed\<rparr>))"
  unfolding clean_data_on_def
  by (rule execute_all_raises) (rule delete_adult_ok delete_title_type_ok delete_few_votes_fails)+

lemma clean_data_on_raises:
  "fst (clean_data_on con) = Some (UndefinedColumn ''num_ratings'')
   \<or> fst (clean_data_on con) = Some InFailedSqlTransaction"
  by (simp add: clean_data_on_result)

lemma clean_data_on_twice:
  "snd (clean_data_on (snd (clean_data_on con))) = snd (clean_data_on con)"
  by (simp add: clean_data_on_result delete_movies_where_again)

lemma clean_data_on_restart:
  "rollback (snd (clean_data_on (rollback (snd (clean_data_on con)))))
     = rollback (snd (clean_data_on con))"
  by (simp add: clean_data_on_result rollback_def delete_movies_where_again)

lemma clean_data_on_connect: "rollback (snd (clean_data_on (connect db))) = connect db"
  by (simp add: clean_data_on_result rollback_def connect_def)

text \<open>
  C4. On every connection a second run of \<open>clean_data\<close> leaves the connection as the
  first run left it, and a second run after a rollback ends, rolled back, in the state
  in which the first run ended, rolled back: the second run deletes no row of any
  table. Every run raises, at the vote-count statement or, in a failed transaction,
  at its first statement; on a connection as the program opens it, a run followed by
  the rollback gives the store back as it was.
\<close>

theorem clean_data_idempotent:
  "snd (clean_data_on (snd (clean_data_on con))) = snd (clean_data_on con)
   \<and> rollback (snd (clean_data_on (rollback (snd (clean_data_on con)))))
       = rollback (snd (clean_data_on con))
   \<and> rollback (snd (clean_data_on (connect db))) = connect db
   \<and> (fst (clean_data_on con) = Some (UndefinedColumn ''num_ratings'')
       \<or> fst (clean_data_on con) = Some InFailedSqlTransaction)"
  by (intro conjI clean_data_on_twice clean_data_on_restart clean_data_on_connect
      clean_data_on_raises)

subsection \<open>The full cycle\<close>

lemma load_rows_invariant:
  assumes "load_rows step s rs = Inr s'" "P s"
    and "\<And>s r s'. P s \<Longrightarrow> step s r = Inr s' \<Longrightarrow> P s'"
  shows "P s'"
  using assms(1,2)
proof (induction rs arbitrary: s)
  case Nil
  then show ?case by simp
next
  case (Cons r rs)
  then show ?case using assms(3) by (cases "step s r") auto
qed

lemma stars_step_references:
  assumes "stars_step ps ms ss row = Inr ss'"
    and "\<forall>s\<in>set ss. person_id s \<in> set (map p_id ps) \<and> movie_id s \<in> set (map m_id ms)"
  shows "\<forall>s\<in>set ss'. person_id s \<in> set (map p_id ps) \<and> movie_id s \<in> set (map m_id ms)"
  using assms unfolding stars_step_def
  by (auto dest!: then_do_InrD split: if_splits)

lemma make_stars_references:
  assumes "make_stars file db = Inr db'"
  shows "people db' = people db \<and> movies db' = movies db
     \<and> (\<forall>s\<in>set (stars db'). person_id s \<in> set (map p_id (people db'))
                              \<and> movie_id s \<in> set (map m_id (movies db')))"
proof -
  obtain ss where l: "load_rows (stars_step (people db) (movies db)) [] file = Inr ss"
    and d: "db' = db\<lparr>stars := ss\<rparr>"
    using assms by (auto simp: make_stars_def dest!: then_do_InrD)
  have "\<forall>s\<in>set ss. person_id s \<in> set (map p_id (people db)) \<and> movie_id s \<in> set (map m_id (movies db))"
    by (rule load_rows_invariant [OF l]) (simp, rule stars_step_references)
  then show ?thesis by (simp add: d)
qed

lemma full_load_references:
  assumes "full_load float d db = Inr db'"
  shows "\<forall>s\<in>set (stars db'). person_id s \<in> set (map p_id (people db'))
                              \<and> movie_id s \<in> set (map m_id (movies db'))"
proof -
  obtain db3 where "make_stars (stars_tsv d) db3 = Inr db'"
    using assms by (auto simp: full_load_def dest!: then_do_InrD)
  then show ?thesis using make_stars_references by blast
qed


text \<open>
  C5 at a dump with one movie, its rating, two people and one stars row. The loaders
  succeed; the second person has no stars row. \<open>clean_data\<close> then raises at the
  vote-count statement, before the statement that deletes such people, so the cycle
  ends in an exception and the person stays.
\<close>

theorem cycle_keeps_isolated_person:
  "full_load (\<lambda>s. Some ())
     \<lparr>movies_tsv = [map_of [(''tconst'', ''tt0000001''), (''primaryTitle'', ''A''),
                             (''startYear'', ''1999''), (''titleType'', ''movie''), (''isAdult'', ''0''),
                             (''runtimeMinutes'', ''90''), (''genres'', ''Drama'')]],
       ratings_tsv = [map_of [(''tconst'', ''tt0000001''), (''averageRating'', ''7.5''),
                              (''numVotes'', ''100'')]],
       names_tsv = [map_of [(''nconst'', ''nm0000001''), (''primaryName'', ''P''),
                            (''birthYear'', ''1950''), (''deathYear'', sentinel),
                            (''knownForTitles'', ''tt0000001'')],
                    map_of [(''nconst'', ''nm0000002''), (''primaryName'', ''Q''),
                            (''birthYear'', sentinel), (''deathYear'', sentinel),
                            (''knownForTitles'', sentinel)]],
       stars_tsv = [map_of [(''tconst'', ''tt0000001''), (''nconst'', ''nm0000001''),
                            (''category'', ''actor'')]]\<rparr>
     \<lparr>movies = [], ratings = [], people = [], stars = []\<rparr>
   = Inr \<lparr>movies = [\<lparr>m_id = 1, title = ''A'', year = Some 1999, title_type = Some ''movie'',
                        is_adult = Some 0, runtime = Some 90, genres = Some ''Drama''\<rparr>],
           ratings = [\<lparr>r_movie_id = 1, average = Some (), num_votes = Some 100\<rparr>],
           people = [\<lparr>p_id = 1, name = ''P'', birth = Some 1950, death = None,
                       famous_movies = Some ''tt0000001''\<rparr>,
                     \<lparr>p_id = 2, name = ''Q'', birth = None, death = None, famous_movies = None\<rparr>],
           stars = [\<lparr>person_id = 1, movie_id = 1, category = ''actor''\<rparr>]\<rparr>
   \<and> load_and_clean (\<lambda>s. Some ())
     \<lparr>movies_tsv = [map_of [(''tconst'', ''tt0000001''), (''primaryTitle'', ''A''),
                             (''startYear'', ''1999''), (''titleType'', ''movie''), (''isAdult'', ''0''),
                             (''runtimeMinutes'', ''90''), (''genres'', ''Drama'')]],
       ratings_tsv = [map_of [(''tconst'', ''tt0000001''), (''averageRating'', ''7.5''),
                              (''numVotes'', ''100'')]],
       names_tsv = [map_of [(''nconst'', ''nm0000001''), (''primaryName'', ''P''),
                            (''birthYear'', ''1950''), (''deathYear'', sentinel),
                            (''knownForTitles'', ''tt0000001'')],
                    map_of [(''nconst'', ''nm0000002''), (''primaryName'', ''Q''),
                            (''birthYear'', sentinel), (''deathYear'', sentinel),
                            (''knownForTitles'', sentinel)]],
       stars_tsv = [map_of [(''tconst'', ''tt0000001''), (''nconst'', ''nm0000001''),
                            (''category'', ''actor'')]]\<rparr>
     (\<lparr>movies = [], ratings = [], people = [], stars = []\<rparr> :: unit db)
   = Inl (UndefinedColumn ''num_ratings'')"
proof -
  let ?d = "\<lparr>movies_tsv = [map_of [(''tconst'', ''tt0000001''), (''primaryTitle'', ''A''),
                             (''startYear'', ''1999''), (''titleType'', ''movie''), (''isAdult'', ''0''),
                             (''runtimeMinutes'', ''90''), (''genres'', ''Drama'')]],
       ratings_tsv = [map_of [(''tconst'', ''tt0000001''), (''averageRating'', ''7.5''),
                              (''numVotes'', ''100'')]],
       names_tsv = [map_of [(''nconst'', ''nm0000001''), (''primaryName'', ''P''),
                            (''birthYear'', ''1950''), (''deathYear'', sentinel),
                            (''knownForTitles'', ''tt0000001'')],
                    map_of [(''nconst'', ''nm0000002''), (''primaryName'', ''Q''),
                            (''birthYear'', sentinel), (''deathYear'', sentinel),
                            (''knownForTitles'', sentinel)]],
       stars_tsv = [map_of [(''tconst'', ''tt0000001''), (''nconst'', ''nm0000001''),
                            (''category'', ''actor'')]]\<rparr>"
  let ?e = "\<lparr>movies = [], ratings = [], people = [], stars = []\<rparr> :: unit db"
  have a: "full_load (\<lambda>s. Some ()) ?d ?e
   = Inr \<lparr>movies = [\<lparr>m_id = 1, title = ''A'', year = Some 1999, title_type = Some ''movie'',
                        is_adult = Some 0, runtime = Some 90, genres = Some ''Drama''\<rparr>],
           ratings = [\<lparr>r_movie_id = 1, average = Some (), num_votes = Some 100\<rparr>],
           people = [\<lparr>p_id = 1, name = ''P'', birth = Some 1950, death = None,
                       famous_movies = Some ''tt0000001''\<rparr>,
                     \<lparr>p_id = 2, name = ''Q'', birth = None, death = None, famous_movies = None\<rparr>],
           stars = [\<lparr>person_id = 1, movie_id = 1, category = ''actor''\<rparr>]\<rparr>"
    by (simp add: full_load_def parse_defs loader_defs)
  then have "load_and_clean (\<lambda>s. Some ()) ?d ?e = Inl (UndefinedColumn ''num_ratings'')"
    by (simp add: load_and_clean_def clean_data_fails)
  with a show ?thesis by (intro conjI)
qed

section \<open>Properties of the person resolver\<close>

lemma get_most_famous_None [simp]: "get_most_famous db None = Inr None"
  by (simp add: get_most_famous_def)

lemma show_candidates_fst:
  "show_candidates db ps = Inr shown \<Longrightarrow>
     map fst shown = filter (\<lambda>p. \<exists>t. get_most_famous db (famous_movies p) = Inr (Some t) \<and> t \<noteq> []) ps"
proof (induction ps arbitrary: shown)
  case Nil
  then show ?case by simp
next
  case (Cons p ps)
  from Cons.prems obtain fl rest where
    g: "get_most_famous db (famous_movies p) = Inr fl"
    and r: "show_candidates db ps = Inr rest"
    and s: "shown = (case fl of None \<Rightarrow> rest | Some t \<Rightarrow> if t = [] then rest else (p, t) # rest)"
    by (auto dest!: then_do_InrD)
  have "map fst rest
      = filter (\<lambda>p. \<exists>t. get_most_famous db (famous_movies p) = Inr (Some t) \<and> t \<noteq> []) ps"
    using Cons.IH r by simp
  then show ?case using g s by (cases fl) auto
qed

lemma map_err_Inr:
  "map_err f xs = Inr ys \<Longrightarrow> \<forall>y\<in>set ys. \<exists>x\<in>set xs. f x = Inr y"
proof (induction xs arbitrary: ys)
  case Nil
  then show ?case by simp
next
  case (Cons x xs)
  from Cons.prems obtain v vs where
    v: "f x = Inr v" and vs: "map_err f xs = Inr vs" and ys: "ys = v # vs"
    by (auto dest!: then_do_InrD)
  have "\<forall>y\<in>set vs. \<exists>x\<in>set xs. f x = Inr y" using Cons.IH vs by simp
  then show ?case using v ys by auto
qed

lemma map_err_total:
  "\<forall>x\<in>set xs. \<exists>y. f x = Inr y \<Longrightarrow> \<exists>ys. map_err f xs = Inr ys"
  by (induction xs) auto

lemma get_most_famous_unresolved:
  assumes "\<not> known_for_resolves db p"
    and "get_most_famous db (famous_movies p) = Inr (Some t)"
  shows "t = []"
proof (cases "famous_movies p")
  case None
  then show ?thesis using assms(2) by simp
next
  case (Some s)
  then have ns: "s \<noteq> sentinel" using assms(2) by (auto simp: get_most_famous_def)
  then obtain ids where
    ids: "map_err (\<lambda>m_id. int_of (drop 2 m_id)) (split_on CHR '','' s) = Inr ids"
    and t: "t = (let list_titles = map title (filter (\<lambda>m. m_id m \<in> set ids) (movies db))
                 in if list_titles \<noteq> [] then join '', '' list_titles else [])"
    using assms(2) Some by (auto simp: get_most_famous_def dest!: then_do_InrD)
  have "filter (\<lambda>m. m_id m \<in> set ids) (movies db) = []"
  proof (rule ccontr)
    assume "filter (\<lambda>m. m_id m \<in> set ids) (movies db) \<noteq> []"
    then obtain m where m: "m \<in> set (movies db)" "m_id m \<in> set ids"
      by (auto simp: filter_empty_conv)
    then obtain x where "x \<in> set (split_on CHR '','' s)" "int_of (drop 2 x) = Inr (m_id m)"
      using map_err_Inr [OF ids] by blast
    then have "known_for_resolves db p"
      using m(1) ns Some by (auto simp: known_for_resolves_def list_ex_iff)
    then show False using assms(1) by simp
  qed
  then show ?thesis using t by simp
qed

lemma get_most_famous_total:
  assumes "\<forall>s. fm = Some s \<and> s \<noteq> sentinel \<longrightarrow>
             (\<forall>x\<in>set (split_on CHR '','' s). py_int (drop 2 x) \<noteq> None)"
  shows "\<exists>r. get_most_famous db fm = Inr r"
proof (cases fm)
  case None
  then show ?thesis by simp
next
  case (Some s)
  show ?thesis
  proof (cases "s = sentinel")
    case True
    then show ?thesis using Some by (simp add: get_most_famous_def)
  next
    case False
    then have "\<forall>x\<in>set (split_on CHR '','' s). \<exists>y. int_of (drop 2 x) = Inr y"
      using assms Some by (auto simp: int_of_def)
    then obtain ids where "map_err (\<lambda>m_id. int_of (drop 2 m_id)) (split_on CHR '','' s) = Inr ids"
      using map_err_total [of "split_on CHR '','' s" "\<lambda>m_id. int_of (drop 2 m_id)"] by blast
    then show ?thesis using Some False by (simp add: get_most_famous_def Let_def)
  qed
qed

lemma show_candidates_total:
  assumes "\<forall>p\<in>set ps. \<forall>s. famous_movies p = Some s \<and> s \<noteq> sentinel \<longrightarrow>
             (\<forall>x\<in>set (split_on CHR '','' s). py_int (drop 2 x) \<noteq> None)"
  shows "\<exists>shown. show_candidates db ps = Inr shown"
  using assms
proof (induction ps)
  case Nil
  then show ?case by simp
next
  case (Cons p ps)
  then obtain rest where r: "show_candidates db ps = Inr rest" by auto
  obtain fl where "get_most_famous db (famous_movies p) = Inr fl"
    using get_most_famous_total [of "famous_movies p" db] Cons.prems by auto
  then show ?case using r by simp
qed

lemma sorted_order_by_length_shown:
  assumes "\<forall>p\<in>set ps. famous_movies p = None \<longrightarrow> \<not> P p"
  shows "sorted (map known_for_length (filter P (order_by_length ps)))"
proof -
  have "filter P (filter (\<lambda>p. famous_movies p = None) ps) = []"
    using assms by (auto simp: filter_empty_conv)
  then have "filter P (order_by_length ps)
      = filter P (sort_key known_for_length (filter (\<lambda>p. famous_movies p \<noteq> None) ps))"
    by (simp add: order_by_length_def)
  moreover have "sorted (map known_for_length
      (sort_key known_for_length (filter (\<lambda>p. famous_movies p \<noteq> None) ps)))"
    by (rule sorted_sort_key)
  ultimately show ?thesis by (simp add: sorted_filter)
qed

lemma set_order_by_length [simp]: "set (order_by_length ps) = set ps"
  by (auto simp: order_by_length_def)

lemma set_name_search: "set (name_search matches db) = {p \<in> set (people db). matches (name p)}"
  by (auto simp: name_search_def)

lemma filter_unique_id:
  "distinct (map p_id ps) \<Longrightarrow> p \<in> set ps \<Longrightarrow> filter (\<lambda>q. p_id q = p_id p) ps = [p]"
proof (induction ps)
  case Nil
  then show ?case by simp
next
  case (Cons a ps)
  show ?case
  proof (cases "a = p")
    case True
    then have "p_id p \<notin> p_id ` set ps" using Cons.prems(1) by simp
    then have "\<forall>q\<in>set ps. p_id q \<noteq> p_id p" by (metis imageI)
    then have "filter (\<lambda>q. p_id q = p_id p) ps = []" by (auto simp: filter_empty_conv)
    then show ?thesis using True by simp
  next
    case False
    then have "p \<in> set ps" using Cons.prems(2) by simp
    moreover have "p_id a \<notin> p_id ` set ps" using Cons.prems(1) by simp
    ultimately have "p_id a \<noteq> p_id p" by (metis imageI)
    then show ?thesis using Cons \<open>p \<in> set ps\<close> by simp
  qed
qed

lemma check_for_id_finds:
  "distinct (map p_id (people db)) \<Longrightarrow> p \<in> set (people db) \<Longrightarrow> py_int s = Some (p_id p)
     \<Longrightarrow> check_for_id db s = Some p"
  by (simp add: check_for_id_def filter_unique_id)

lemma check_name_many:
  assumes "regex (name_pattern input_name) = Some matches" "1 < length (name_search matches db)"
  shows "check_name regex db input_name
     = then_do (show_candidates db (name_search matches db)) (\<lambda>shown. Inr (shown, None))"
proof -
  obtain a xs where x: "name_search matches db = a # xs"
    using assms(2) by (cases "name_search matches db") auto
  then obtain b rest where "xs = b # rest"
    using assms(2) by (cases xs) auto
  with x have "name_search matches db = a # b # rest" by simp
  then show ?thesis using assms(1) by (simp add: check_name_def)
qed

lemma check_name_one:
  assumes "regex (name_pattern s) = Some matches" "name_search matches db = [p]"
  shows "check_name regex db s = Inr ([], Some p)"
  using assms by (simp add: check_name_def)

lemma check_name_some:
  assumes "check_name regex db s = Inr (shown, Some q)"
  shows "\<exists>matches. regex (name_pattern s) = Some matches \<and> name_search matches db = [q]
            \<and> shown = []"
proof -
  obtain matches where m: "regex (name_pattern s) = Some matches"
    using assms by (cases "regex (name_pattern s)") (auto simp: check_name_def)
  show ?thesis
  proof (cases "name_search matches db")
    case Nil
    then show ?thesis using assms m by (simp add: check_name_def)
  next
    case (Cons a xs)
    show ?thesis
    proof (cases xs)
      case Nil
      then show ?thesis using assms m Cons by (simp add: check_name_def)
    next
      case (Cons b rest)
      then have "1 < length (name_search matches db)" using \<open>name_search matches db = a # xs\<close> by simp
      then have "check_name regex db s
          = then_do (show_candidates db (name_search matches db)) (\<lambda>shown. Inr (shown, None))"
        using m by (intro check_name_many) simp_all
      then have "then_do (show_candidates db (name_search matches db)) (\<lambda>shown. Inr (shown, None))
          = Inr (shown, Some q)"
        using assms by simp
      then have False by (auto dest!: then_do_InrD)
      then show ?thesis ..
    qed
  qed
qed

lemma distinct_order_by_length: "distinct ps \<Longrightarrow> distinct (order_by_length ps)"
  by (auto simp: order_by_length_def)

lemma distinct_name_search:
  assumes "distinct (map p_id (people db))"
  shows "distinct (name_search matches db)"
proof -
  have "distinct (people db)" using assms by (simp add: distinct_map)
  then show ?thesis unfolding name_search_def by (intro distinct_order_by_length) simp
qed

lemma distinct_singleton:
  assumes "distinct xs" "set xs = {q}"
  shows "xs = [q]"
proof -
  have "length xs = card (set xs)" using assms(1) by (simp add: distinct_card)
  then have "length xs = 1" using assms(2) by simp
  then obtain a where "xs = [a]" by (cases xs) auto
  then show ?thesis using assms(2) by simp
qed

lemma check_name_only_match:
  assumes "distinct (map p_id (people db))" "regex (name_pattern s) = Some matches"
  shows "(\<exists>shown. check_name regex db s = Inr (shown, Some q))
     \<longleftrightarrow> {p \<in> set (people db). matches (name p)} = {q}"
proof
  assume "\<exists>shown. check_name regex db s = Inr (shown, Some q)"
  then obtain shown where "check_name regex db s = Inr (shown, Some q)" by blast
  then have "name_search matches db = [q]" using check_name_some assms(2) by fastforce
  then have "set (name_search matches db) = {q}" by simp
  then show "{p \<in> set (people db). matches (name p)} = {q}" by (simp add: set_name_search)
next
  assume "{p \<in> set (people db). matches (name p)} = {q}"
  then have "set (name_search matches db) = {q}" by (simp add: set_name_search)
  then have "name_search matches db = [q]"
    using distinct_name_search [OF assms(1)] by (intro distinct_singleton)
  then have "check_name regex db s = Inr ([], Some q)" using assms(2) by (rule check_name_one [rotated])
  then show "\<exists>shown. check_name regex db s = Inr (shown, Some q)" by blast
qed

lemma check_name_namesake:
  assumes "q \<in> set (people db)" "q' \<in> set (people db)" "q \<noteq> q'" "name q = name q'"
  shows "check_name regex db s \<noteq> Inr (shown, Some q)"
proof
  assume "check_name regex db s = Inr (shown, Some q)"
  then obtain matches where "name_search matches db = [q]" using check_name_some by blast
  then have s: "{p \<in> set (people db). matches (name p)} = {q}"
    using set_name_search [of matches db] by simp
  then have "matches (name q)" by blast
  then have "q' \<in> {p \<in> set (people db). matches (name p)}" using assms(2,4) by simp
  then show False using s assms(3) by simp
qed

text \<open>
  C6, as the code has it. When the name search has more than one match: \<open>check_name\<close>
  prints and returns \<open>None\<close>, and it raises nothing if every known-for entry of the
  matches reads as an identifier. The printed candidates are the matches, in the order
  of the query, for which \<open>get_most_famous\<close> gives a non-empty text; they are in
  ascending order of the length of their known-for text. A match whose known-for titles
  resolve to no stored movie is not printed, yet it is in the query result, which holds
  exactly the people whose name matches. Any person of the store is found by
  \<open>check_for_id\<close> from an input that reads as their id, ids being unique. By a name,
  ids being unique, \<open>check_name\<close> returns a person exactly when they are the only
  person of the store whose name matches; so a person who shares their name with
  another is returned for no input, whatever the matching.
\<close>

theorem ambiguous_candidates:
  "(regex (name_pattern input_name) = Some matches \<and> 1 < length (name_search matches db) \<longrightarrow>
      ((\<forall>p\<in>set (name_search matches db). \<forall>s. famous_movies p = Some s \<and> s \<noteq> sentinel \<longrightarrow>
            (\<forall>x\<in>set (split_on CHR '','' s). py_int (drop 2 x) \<noteq> None))
         \<longrightarrow> (\<exists>shown. check_name regex db input_name = Inr (shown, None)))
      \<and> (\<forall>shown ret. check_name regex db input_name = Inr (shown, ret) \<longrightarrow>
            ret = None
            \<and> map fst shown
                = filter (\<lambda>p. \<exists>t. get_most_famous db (famous_movies p) = Inr (Some t) \<and> t \<noteq> [])
                    (name_search matches db)
            \<and> sorted (map (\<lambda>c. known_for_length (fst c)) shown)
            \<and> (\<forall>p\<in>set (name_search matches db).
                  \<not> known_for_resolves db p \<longrightarrow> p \<notin> fst ` set shown)))
   \<and> set (name_search matches db) = {p \<in> set (people db). matches (name p)}
   \<and> (distinct (map p_id (people db)) \<and> q \<in> set (people db) \<and> py_int s = Some (p_id q) \<longrightarrow>
        check_for_id db s = Some q)
   \<and> (distinct (map p_id (people db)) \<and> regex (name_pattern full_name) = Some matches' \<longrightarrow>
        ((\<exists>shown. check_name regex db full_name = Inr (shown, Some q))
           \<longleftrightarrow> {p \<in> set (people db). matches' (name p)} = {q}))
   \<and> (q \<in> set (people db) \<and> q' \<in> set (people db) \<and> q \<noteq> q' \<and> name q = name q' \<longrightarrow>
        check_name regex db full_name \<noteq> Inr (listed, Some q))"
proof (intro conjI impI allI)
  assume a: "regex (name_pattern input_name) = Some matches \<and> 1 < length (name_search matches db)"
    and w: "\<forall>p\<in>set (name_search matches db). \<forall>s. famous_movies p = Some s \<and> s \<noteq> sentinel \<longrightarrow>
            (\<forall>x\<in>set (split_on CHR '','' s). py_int (drop 2 x) \<noteq> None)"
  obtain shown where "show_candidates db (name_search matches db) = Inr shown"
    using show_candidates_total [OF w] by blast
  then show "\<exists>shown. check_name regex db input_name = Inr (shown, None)"
    using a by (simp add: check_name_many)
next
  fix shown ret
  assume a: "regex (name_pattern input_name) = Some matches \<and> 1 < length (name_search matches db)"
    and c: "check_name regex db input_name = Inr (shown, ret)"
  let ?P = "\<lambda>p. \<exists>t. get_most_famous db (famous_movies p) = Inr (Some t) \<and> t \<noteq> []"
  have sc: "show_candidates db (name_search matches db) = Inr shown" and r: "ret = None"
    using a c by (auto simp: check_name_many dest!: then_do_InrD)
  show "ret = None" by (rule r)
  show f: "map fst shown = filter ?P (name_search matches db)"
    using sc by (rule show_candidates_fst)
  have "sorted (map known_for_length (filter ?P (name_search matches db)))"
    unfolding name_search_def by (rule sorted_order_by_length_shown) simp
  then have "sorted (map known_for_length (map fst shown))" unfolding f .
  then show "sorted (map (\<lambda>c. known_for_length (fst c)) shown)" by (simp add: comp_def)
  show "\<forall>p\<in>set (name_search matches db). \<not> known_for_resolves db p \<longrightarrow> p \<notin> fst ` set shown"
  proof (intro ballI impI)
    fix p
    assume "p \<in> set (name_search matches db)" and n: "\<not> known_for_resolves db p"
    have np: "\<not> ?P p" using get_most_famous_unresolved [OF n] by blast
    have "p \<notin> set (filter ?P (name_search matches db))"
    proof
      assume "p \<in> set (filter ?P (name_search matches db))"
      then have "?P p" by simp
      with np show False by blast
    qed
    then have "p \<notin> set (map fst shown)" unfolding f .
    then show "p \<notin> fst ` set shown" by simp
  qed
next
  show "set (name_search matches db) = {p \<in> set (people db). matches (name p)}"
    by (rule set_name_search)
next
  assume "distinct (map p_id (people db)) \<and> q \<in> set (people db) \<and> py_int s = Some (p_id q)"
  then show "check_for_id db s = Some q" by (simp add: check_for_id_finds)
next
  assume "distinct (map p_id (people db)) \<and> regex (name_pattern full_name) = Some matches'"
  then show "(\<exists>shown. check_name regex db full_name = Inr (shown, Some q))
           \<longleftrightarrow> {p \<in> set (people db). matches' (name p)} = {q}"
    by (intro check_name_only_match) simp_all
next
  assume "q \<in> set (people db) \<and> q' \<in> set (people db) \<and> q \<noteq> q' \<and> name q = name q'"
  then show "check_name regex db full_name \<noteq> Inr (listed, Some q)"
    by (intro check_name_namesake [of q db q']) simp_all
qed

lemmas resolver_defs =
  check_name_def name_search_def order_by_length_def known_for_length_def name_pattern_def
  get_most_famous_def check_for_id_def known_for_resolves_def
  chris_zero_def chris_five_def chris_two_def plain_movie_def resolver_fixture_def
  namesake_fixture_def

lemma fixture_search:
  "name_search (\<lambda>n. take 5 n = ''Chris'') resolver_fixture = [chris_two, chris_five, chris_zero]"
  by (simp add: resolver_defs)

lemma fixture_check:
  "check_name (\<lambda>pat. Some (\<lambda>n. take 5 n = ''Chris'')) resolver_fixture ''Chris''
      = Inr ([(chris_two, ''M1, M2''), (chris_five, ''M1, M2'')], None)"
  by (simp add: resolver_defs parse_defs)

theorem ambiguous_candidates_witness:
  "(\<exists>shown. check_name (\<lambda>pat. Some (\<lambda>n. take 5 n = ''Chris'')) resolver_fixture ''Chris''
        = Inr (shown, None))
   \<and> map fst [(chris_two, ''M1, M2''), (chris_five, ''M1, M2'')]
       = filter (\<lambda>p. \<exists>t. get_most_famous resolver_fixture (famous_movies p) = Inr (Some t) \<and> t \<noteq> [])
           (name_search (\<lambda>n. take 5 n = ''Chris'') resolver_fixture)
   \<and> sorted (map (\<lambda>c. known_for_length (fst c)) [(chris_two, ''M1, M2''), (chris_five, ''M1, M2'')])
   \<and> chris_zero \<notin> fst ` set [(chris_two, ''M1, M2''), (chris_five, ''M1, M2'')]
   \<and> chris_zero \<in> set (name_search (\<lambda>n. take 5 n = ''Chris'') resolver_fixture)
   \<and> check_for_id resolver_fixture ''10'' = Some chris_zero
   \<and> (\<exists>shown. check_name (\<lambda>pat. Some (\<lambda>n. n = ''Chris Zero'')) resolver_fixture ''Chris Zero''
        = Inr (shown, Some chris_zero))
   \<and> check_name (\<lambda>pat. Some (\<lambda>n. n = ''Chris Zero'')) namesake_fixture ''Chris Zero''
        \<noteq> Inr ([], Some chris_zero)"
proof -
  let ?M = "\<lambda>n. take 5 n = ''Chris''"
  let ?R = "\<lambda>pat :: string. Some ?M"
  let ?N = "\<lambda>n. n = ''Chris Zero''"
  let ?Q = "\<lambda>pat :: string. Some ?N"
  let ?other = "\<lparr>p_id = 20, name = ''Chris Zero'', birth = Some 1980, death = None,
                   famous_movies = None\<rparr>"
  let ?shown = "[(chris_two, ''M1, M2''), (chris_five, ''M1, M2'')]"
  note t = ambiguous_candidates [where regex = ?R and input_name = "''Chris''" and matches = ?M
      and db = resolver_fixture and q = chris_zero and s = "''10''"]
  note u = ambiguous_candidates [where regex = ?Q and full_name = "''Chris Zero''"
      and matches' = ?N and db = resolver_fixture and q = chris_zero]
  note n = ambiguous_candidates [where regex = ?Q and full_name = "''Chris Zero''"
      and db = namesake_fixture and q = chris_zero and q' = ?other and listed = "[]"]
  have h1: "?R (name_pattern ''Chris'') = Some ?M \<and> 1 < length (name_search ?M resolver_fixture)"
    by (simp add: fixture_search)
  have h2: "\<forall>p\<in>set (name_search ?M resolver_fixture). \<forall>s. famous_movies p = Some s \<and> s \<noteq> sentinel \<longrightarrow>
            (\<forall>x\<in>set (split_on CHR '','' s). py_int (drop 2 x) \<noteq> None)"
    by (simp add: fixture_search chris_zero_def chris_two_def chris_five_def parse_defs)
  have h3: "check_name ?R resolver_fixture ''Chris'' = Inr (?shown, None)"
    by (rule fixture_check)
  have h4: "\<not> known_for_resolves resolver_fixture chris_zero"
    by (simp add: known_for_resolves_def chris_zero_def)
  have h5: "chris_zero \<in> set (name_search ?M resolver_fixture)"
    by (simp add: fixture_search)
  have h6: "distinct (map p_id (people resolver_fixture)) \<and> chris_zero \<in> set (people resolver_fixture)
      \<and> py_int ''10'' = Some (p_id chris_zero)"
    by (simp add: resolver_defs parse_defs)
  have h7: "distinct (map p_id (people resolver_fixture))
      \<and> ?Q (name_pattern ''Chris Zero'') = Some ?N"
    by (simp add: resolver_defs)
  have h8: "{p \<in> set (people resolver_fixture). ?N (name p)} = {chris_zero}"
    by (auto simp: resolver_defs)
  have h9: "chris_zero \<in> set (people namesake_fixture) \<and> ?other \<in> set (people namesake_fixture)
      \<and> chris_zero \<noteq> ?other \<and> name chris_zero = name ?other"
    by (simp add: resolver_defs)
  note a = t [THEN conjunct1, THEN mp, OF h1]
  note c1 = a [THEN conjunct1, THEN mp, OF h2]
  note b = a [THEN conjunct2, THEN spec, THEN spec, THEN mp, OF h3]
  note c2 = b [THEN conjunct2, THEN conjunct1]
  note c3 = b [THEN conjunct2, THEN conjunct2, THEN conjunct1]
  note c4 = b [THEN conjunct2, THEN conjunct2, THEN conjunct2, THEN bspec, OF h5, THEN mp, OF h4]
  note c6 = t [THEN conjunct2, THEN conjunct2, THEN conjunct1, THEN mp, OF h6]
  note c7 = u [THEN conjunct2, THEN conjunct2, THEN conjunct2, THEN conjunct1, THEN mp, OF h7,
      THEN iffD2, OF h8]
  note c8 = n [THEN conjunct2, THEN conjunct2, THEN conjunct2, THEN conjunct2, THEN mp, OF h9]
  from c1 c2 c3 c4 h5 c6 c7 c8 show ?thesis by (intro conjI)
qed

text \<open>
  C6 as stated fails in its last part. Two people of one name, neither with known-for
  titles that resolve: both are in the match set of their full name, neither is
  printed, and the full name selects neither.
\<close>

theorem namesake_counterexample:
  "set (name_search (\<lambda>n. n = ''Chris Zero'') namesake_fixture) = set (people namesake_fixture)
   \<and> chris_zero \<in> set (people namesake_fixture)
   \<and> \<not> known_for_resolves namesake_fixture chris_zero
   \<and> check_name (\<lambda>pat. Some (\<lambda>n. n = ''Chris Zero'')) namesake_fixture ''Chris Zero''
       = Inr ([], None)"
  by (simp add: resolver_defs)

section \<open>Properties of the path resolver\<close>

subsection \<open>The graph\<close>

lemma find_contacts_iff: "b \<in> set (find_contacts db a) \<longleftrightarrow> co_appear db a b"
proof
  assume "b \<in> set (find_contacts db a)"
  then obtain s1 s2 where "s1 \<in> set (stars db)" "person_id s1 = a" "s2 \<in> set (stars db)"
    "movie_id s1 = movie_id s2" "person_id s2 \<noteq> a" "b = person_id s2"
    by (auto simp: find_contacts_def)
  then show "co_appear db a b"
    unfolding co_appear_def list_ex_iff by (metis (no_types))
next
  assume "co_appear db a b"
  then obtain s1 s2 where "s1 \<in> set (stars db)" "person_id s1 = a" "s2 \<in> set (stars db)"
    "movie_id s2 = movie_id s1" "person_id s2 = b" "a \<noteq> b"
    unfolding co_appear_def list_ex_iff by blast
  then show "b \<in> set (find_contacts db a)"
    by (force simp: find_contacts_def)
qed

lemma co_appear_sym: "co_appear db a b \<Longrightarrow> co_appear db b a"
  unfolding co_appear_def list_ex_iff by (metis (no_types))

lemma co_appear_irrefl: "\<not> co_appear db a a"
  by (simp add: co_appear_def)

lemma distinct_find_contacts: "distinct (find_contacts db a)"
  by (simp add: find_contacts_def)

lemma co_appear_person: "co_appear db a b \<Longrightarrow> a \<in> set (map person_id (stars db))"
  by (auto simp: co_appear_def list_ex_iff)

lemma hops_zero [simp]: "hops db a 0 b \<longleftrightarrow> b = a"
  by (auto elim: hops.cases intro: hops_here)

lemma hops_Suc: "hops db a (Suc k) c \<longleftrightarrow> (\<exists>b. hops db a k b \<and> co_appear db b c)"
  by (auto elim: hops.cases intro: hops_step)

lemma walk_hops:
  "walk db p \<Longrightarrow> p \<noteq> [] \<Longrightarrow> hops db (last p) (length p - 1) (hd p)"
proof (induction db p rule: walk.induct)
  case (1 db)
  then show ?case by simp
next
  case (2 db a)
  then show ?case by simp
next
  case (3 db a b rest)
  then have "hops db (last (b # rest)) (length rest) b" by simp
  moreover have "co_appear db b a" using "3.prems"(1) by (simp add: co_appear_sym)
  ultimately have "hops db (last (b # rest)) (Suc (length rest)) a" by (rule hops_step)
  then show ?case by simp
qed

lemma walk_rev: "walk db p \<Longrightarrow> walk db (rev p)"
proof (induction db p rule: walk.induct)
  case (3 db a b rest)
  have w: "walk db (rev (b # rest))" using 3 by simp
  have c: "co_appear db b a" using "3.prems" by (simp add: co_appear_sym)
  have "\<And>q x y. walk db (q @ [x]) \<Longrightarrow> co_appear db x y \<Longrightarrow> walk db (q @ [x, y])"
  proof -
    fix q :: "int list" and x y
    show "walk db (q @ [x]) \<Longrightarrow> co_appear db x y \<Longrightarrow> walk db (q @ [x, y])"
      by (induction db q rule: walk.induct) auto
  qed
  from this [of "rev rest" b a] w c show ?case by simp
qed simp_all


subsection \<open>The invariant of the search loop\<close>

lemma sorted_map_hd_le:
  "sorted (map f xs) \<Longrightarrow> e \<in> set xs \<Longrightarrow> f (hd xs) \<le> f e"
  by (cases xs) auto

lemma bfs_inv_init: "bfs_inv db start target [(start, [])] {}"
  by (simp add: bfs_inv_def)

lemma bfs_inv_advance:
  assumes inv: "bfs_inv db s t ((v, p) # rest) vis"
    and new: "\<forall>e\<in>set new. snd e = v # p \<and> co_appear db v (fst e)"
    and cover: "\<forall>w. co_appear db v w \<longrightarrow> w \<in> insert v vis \<or> w \<in> fst ` set (rest @ new)"
    and tgt: "\<not> co_appear db v t"
  shows "bfs_inv db s t (rest @ new) (insert v vis)"
proof -
  let ?k = "length p"
  let ?Q = "rest @ new"
  let ?len = "\<lambda>e :: int \<times> int list. length (snd e)"
  have a1: "\<forall>e\<in>set ((v, p) # rest). walk db (fst e # snd e) \<and> last (fst e # snd e) = s"
    and a2: "sorted (map ?len ((v, p) # rest))"
    and a3: "\<forall>e\<in>set ((v, p) # rest). ?len e \<le> Suc ?k"
    and a4: "\<forall>u\<in>vis. \<not> co_appear db u t"
    and a5: "\<forall>u\<in>vis. \<forall>w. co_appear db u w \<longrightarrow> w \<in> vis \<or> w \<in> fst ` set ((v, p) # rest)"
    and a6: "s \<in> vis \<or> s \<in> fst ` set ((v, p) # rest)"
    and a7: "\<forall>j u. hops db s j u \<and> j < ?k \<longrightarrow> u \<in> vis"
    and a8: "\<forall>u. hops db s ?k u \<longrightarrow>
               u \<in> vis \<or> (\<exists>p'. (u, p') \<in> set ((v, p) # rest) \<and> length p' = ?k)"
    using inv unfolding bfs_inv_def by simp_all
  have lo: "\<forall>e\<in>set ?Q. ?k \<le> ?len e"
    using a2 new by auto
  have hi: "\<forall>e\<in>set ?Q. ?len e \<le> Suc ?k"
    using a3 new by auto
  have g1: "\<forall>e\<in>set ?Q. walk db (fst e # snd e) \<and> last (fst e # snd e) = s"
  proof
    fix e assume e: "e \<in> set ?Q"
    show "walk db (fst e # snd e) \<and> last (fst e # snd e) = s"
    proof (cases "e \<in> set rest")
      case True
      then show ?thesis using a1 by simp
    next
      case False
      then have "snd e = v # p" "co_appear db v (fst e)" using e new by auto
      moreover have "walk db (fst (v, p) # snd (v, p)) \<and> last (fst (v, p) # snd (v, p)) = s"
        using a1 by (rule bspec) simp
      then have "walk db (v # p) \<and> last (v # p) = s" by (simp only: fst_conv snd_conv)
      moreover have "last (fst e # v # p) = last (v # p)" by simp
      ultimately show ?thesis by (simp add: co_appear_sym del: last.simps)
    qed
  qed
  have g2: "sorted (map ?len ?Q)"
  proof -
    have "sorted (map ?len rest)" using a2 by simp
    moreover have "map ?len new = replicate (length new) (Suc ?k)"
      using new by (induction new) auto
    then have "sorted (map ?len new)" by (simp add: sorted_replicate)
    moreover have "\<forall>x\<in>set (map ?len rest). \<forall>y\<in>set (map ?len new). x \<le> y"
      using a3 new by auto
    ultimately show ?thesis by (simp add: sorted_append)
  qed
  have hdQ: "?Q \<noteq> [] \<Longrightarrow> ?k \<le> ?len (hd ?Q) \<and> ?len (hd ?Q) \<le> Suc ?k"
    using lo hi by (metis hd_in_set)
  have minQ: "\<forall>e\<in>set ?Q. ?len (hd ?Q) \<le> ?len e"
    using g2 by (auto intro: sorted_map_hd_le [of ?len ?Q])
  have g3: "\<forall>e\<in>set ?Q. ?len e \<le> Suc (?len (hd ?Q))"
  proof
    fix e assume e: "e \<in> set ?Q"
    then have "?Q \<noteq> []" by auto
    then have "?k \<le> ?len (hd ?Q)" using hdQ by simp
    moreover have "?len e \<le> Suc ?k" using hi e by simp
    ultimately show "?len e \<le> Suc (?len (hd ?Q))" by simp
  qed
  have g4: "\<forall>u\<in>insert v vis. \<not> co_appear db u t"
    using a4 tgt by simp
  have g5: "\<forall>u\<in>insert v vis. \<forall>w. co_appear db u w \<longrightarrow> w \<in> insert v vis \<or> w \<in> fst ` set ?Q"
  proof (intro ballI allI impI)
    fix u w assume u: "u \<in> insert v vis" and c: "co_appear db u w"
    show "w \<in> insert v vis \<or> w \<in> fst ` set ?Q"
    proof (cases "u = v")
      case True
      then show ?thesis using cover c by simp
    next
      case False
      then have "u \<in> vis" using u by simp
      then have "w \<in> vis \<or> w \<in> fst ` set ((v, p) # rest)" using a5 c by blast
      then show ?thesis by auto
    qed
  qed
  have g6: "s \<in> insert v vis \<or> s \<in> fst ` set ?Q"
    using a6 by auto
  have g7: "\<forall>j u. hops db s j u \<and> j < ?len (hd ?Q) \<longrightarrow> u \<in> insert v vis" if ne: "?Q \<noteq> []"
  proof (intro allI impI)
    fix j u assume h: "hops db s j u \<and> j < ?len (hd ?Q)"
    show "u \<in> insert v vis"
    proof (cases "j < ?k")
      case True
      then show ?thesis using a7 h by blast
    next
      case False
      then have j: "j = ?k" and top: "?len (hd ?Q) = Suc ?k" using h hdQ [OF ne] by auto
      then have "u \<in> vis \<or> (\<exists>p'. (u, p') \<in> set ((v, p) # rest) \<and> length p' = ?k)"
        using a8 h by blast
      moreover have "\<not> (\<exists>p'. (u, p') \<in> set rest \<and> length p' = ?k)"
      proof
        assume "\<exists>p'. (u, p') \<in> set rest \<and> length p' = ?k"
        then obtain p' where "(u, p') \<in> set ?Q" "length p' = ?k" by auto
        then have "Suc ?k \<le> ?k" using minQ top by force
        then show False by simp
      qed
      ultimately show ?thesis by auto
    qed
  qed
  have g8: "\<forall>u. hops db s (?len (hd ?Q)) u \<longrightarrow>
               u \<in> insert v vis \<or> (\<exists>p'. (u, p') \<in> set ?Q \<and> length p' = ?len (hd ?Q))"
    if ne: "?Q \<noteq> []"
  proof (intro allI impI)
    fix u assume h: "hops db s (?len (hd ?Q)) u"
    show "u \<in> insert v vis \<or> (\<exists>p'. (u, p') \<in> set ?Q \<and> length p' = ?len (hd ?Q))"
    proof (cases "?len (hd ?Q) = ?k")
      case True
      then have "u \<in> vis \<or> (\<exists>p'. (u, p') \<in> set ((v, p) # rest) \<and> length p' = ?k)"
        using a8 h by simp
      then show ?thesis using True by auto
    next
      case False
      then have top: "?len (hd ?Q) = Suc ?k" using hdQ [OF ne] by auto
      then obtain w where w: "hops db s ?k w" "co_appear db w u"
        using h by (auto simp: hops_Suc)
      then have "w \<in> insert v vis" using g7 [OF ne] top by auto
      then have "u \<in> insert v vis \<or> u \<in> fst ` set ?Q" using g5 w(2) by blast
      moreover have "\<exists>p'. (u, p') \<in> set ?Q \<and> length p' = ?len (hd ?Q)" if "u \<in> fst ` set ?Q"
      proof -
        from that obtain p' where e: "(u, p') \<in> set ?Q" by force
        then have "?len (hd ?Q) \<le> length p'" using minQ by force
        moreover have "length p' \<le> Suc ?k" using hi e by force
        ultimately show ?thesis using e top by auto
      qed
      ultimately show ?thesis by blast
    qed
  qed
  show ?thesis
    unfolding bfs_inv_def using g1 g2 g3 g4 g5 g6 g7 g8 by (intro conjI impI) assumption+
qed

lemma bfs_inv_exhausted:
  assumes "bfs_inv db s t [] vis"
  shows "hops db s k u \<Longrightarrow> u \<in> vis"
proof (induction rule: hops.induct)
  case hops_here
  then show ?case using assms by (simp add: bfs_inv_def)
next
  case (hops_step k b c)
  have "\<forall>u\<in>vis. \<forall>w. co_appear db u w \<longrightarrow> w \<in> vis"
    using assms by (simp add: bfs_inv_def)
  then show ?case using hops_step by blast
qed

lemma bfs_inv_no_target:
  assumes "bfs_inv db s t [] vis"
  shows "\<not> hops db s (Suc k) t"
proof
  assume "hops db s (Suc k) t"
  then obtain w where "hops db s k w" "co_appear db w t" by (auto simp: hops_Suc)
  moreover from this have "w \<in> vis" using bfs_inv_exhausted [OF assms] by blast
  ultimately show False using assms by (simp add: bfs_inv_def)
qed

lemma bfs_inv_found:
  assumes inv: "bfs_inv db s t ((v, p) # rest) vis" and c: "co_appear db v t"
  shows "last (t # v # p) = s \<and> walk db (t # v # p)
     \<and> (\<forall>k. hops db s (Suc k) t \<longrightarrow> length (t # v # p) \<le> Suc (Suc k))"
proof -
  have "\<forall>e\<in>set ((v, p) # rest). walk db (fst e # snd e) \<and> last (fst e # snd e) = s"
    using inv unfolding bfs_inv_def by blast
  then have w: "walk db (v # p) \<and> last (v # p) = s"
    by (metis fst_conv snd_conv list.set_intros(1))
  have a4: "\<forall>u\<in>vis. \<not> co_appear db u t"
    and a7: "\<forall>j u. hops db s j u \<and> j < length p \<longrightarrow> u \<in> vis"
    using inv unfolding bfs_inv_def by simp_all
  have "last (t # v # p) = last (v # p)" by simp
  then have l: "last (t # v # p) = s" using w by simp
  have wk: "walk db (t # v # p)" using w c by (simp add: co_appear_sym)
  have "length p \<le> k" if h: "hops db s (Suc k) t" for k
  proof (rule ccontr)
    assume "\<not> length p \<le> k"
    then have lt: "k < length p" by simp
    obtain u where u: "hops db s k u" "co_appear db u t" using h by (auto simp: hops_Suc)
    then have "u \<in> vis" using a7 lt by blast
    then show False using a4 u(2) by blast
  qed
  then show ?thesis using l wk by simp
qed

lemma bfs_inv_discard:
  assumes inv: "bfs_inv db s t ((v, p) # rest) vis" and v: "v \<in> vis"
  shows "bfs_inv db s t rest vis"
proof -
  have a4: "\<forall>u\<in>vis. \<not> co_appear db u t"
    and a5: "\<forall>u\<in>vis. \<forall>w. co_appear db u w \<longrightarrow> w \<in> vis \<or> w \<in> fst ` set ((v, p) # rest)"
    using inv unfolding bfs_inv_def by simp_all
  have "bfs_inv db s t (rest @ []) (insert v vis)"
  proof (rule bfs_inv_advance [OF inv])
    show "\<forall>e\<in>set []. snd e = v # p \<and> co_appear db v (fst e)" by simp
    show "\<forall>w. co_appear db v w \<longrightarrow> w \<in> insert v vis \<or> w \<in> fst ` set (rest @ [])"
      using a5 v by auto
    show "\<not> co_appear db v t" using a4 v by blast
  qed
  moreover have "insert v vis = vis" using v by auto
  ultimately show ?thesis by simp
qed

lemma bfs_inv_expand:
  assumes inv: "bfs_inv db s t ((v, p) # rest) vis" and t: "t \<notin> set (find_contacts db v)"
  shows "bfs_inv db s t
           (rest @ map (\<lambda>contact. (contact, v # p))
                     (filter (\<lambda>contact. contact \<notin> insert v vis) (find_contacts db v)))
           (insert v vis)"
proof (rule bfs_inv_advance [OF inv])
  let ?new = "map (\<lambda>contact. (contact, v # p))
                     (filter (\<lambda>contact. contact \<notin> insert v vis) (find_contacts db v))"
  show "\<forall>e\<in>set ?new. snd e = v # p \<and> co_appear db v (fst e)"
    by (auto simp: find_contacts_iff)
  show "\<forall>w. co_appear db v w \<longrightarrow> w \<in> insert v vis \<or> w \<in> fst ` set (rest @ ?new)"
  proof (intro allI impI)
    fix w assume "co_appear db v w"
    then have "w \<in> set (find_contacts db v)" by (simp add: find_contacts_iff)
    then have "w \<notin> insert v vis \<Longrightarrow> (w, v # p) \<in> set ?new" by simp
    then show "w \<in> insert v vis \<or> w \<in> fst ` set (rest @ ?new)" by force
  qed
  show "\<not> co_appear db v t" using t by (simp add: find_contacts_iff)
qed

lemma solve_loop_sound:
  assumes "bfs_inv db s t queue vis"
  shows "(solve_loop db t mx queue n vis = NoPath \<longrightarrow> (\<forall>k. \<not> hops db s (Suc k) t))
       \<and> (\<forall>r. solve_loop db t mx queue n vis = Path r \<longrightarrow>
             2 \<le> length r \<and> hd r = t \<and> last r = s \<and> walk db r
             \<and> (\<forall>k. hops db s (Suc k) t \<longrightarrow> length r \<le> Suc (Suc k)))"
  using assms
proof (induction db t mx queue n vis rule: solve_loop.induct)
  case (1 db target max_nodes nodes_visited visited_ids)
  have "\<forall>k. \<not> hops db s (Suc k) target"
    using bfs_inv_no_target [OF "1.prems"] by blast
  then show ?case by simp
next
  case (2 db target max_nodes current_node current_path queue nodes_visited visited_ids)
  note inv = "2.prems"
  show ?case
  proof (cases "nodes_visited + 1 > max_nodes")
    case True
    then show ?thesis by simp
  next
    case go: False
    show ?thesis
    proof (cases "current_node \<in> visited_ids")
      case True
      have "bfs_inv db s target queue visited_ids"
        using inv True by (rule bfs_inv_discard)
      then show ?thesis using "2.IH"(1) [OF go True] go True by simp
    next
      case fresh: False
      show ?thesis
      proof (cases "target \<in> set (find_contacts db current_node)")
        case True
        then have "co_appear db current_node target" by (simp add: find_contacts_iff)
        then show ?thesis
          using bfs_inv_found [OF inv] go fresh True by simp
      next
        case False
        have "bfs_inv db s target
           (queue @ map (\<lambda>contact. (contact, current_node # current_path))
                     (filter (\<lambda>contact. contact \<notin> insert current_node visited_ids)
                        (find_contacts db current_node)))
           (insert current_node visited_ids)"
          using inv False by (rule bfs_inv_expand)
        then show ?thesis using "2.IH"(2) [OF go fresh False] go fresh False by simp
      qed
    qed
  qed
qed

subsection \<open>The ceiling\<close>

lemma sum_list_filter_insert:
  assumes "distinct ps" "v \<notin> S" "v \<in> set ps"
  shows "sum_list (map f (filter (\<lambda>u. u \<notin> insert v S) ps)) + (f v :: nat)
       = sum_list (map f (filter (\<lambda>u. u \<notin> S) ps))"
  using assms
proof (induction ps)
  case Nil
  then show ?case by simp
next
  case (Cons a ps)
  show ?case
  proof (cases "a = v")
    case True
    then have "v \<notin> set ps" using Cons.prems(1) by simp
    then have "filter (\<lambda>u. u \<notin> insert v S) ps = filter (\<lambda>u. u \<notin> S) ps"
      by (intro filter_cong) auto
    then show ?thesis using True Cons.prems(2) by simp
  next
    case False
    then have "v \<in> set ps" using Cons.prems(3) by simp
    then have "sum_list (map f (filter (\<lambda>u. u \<notin> insert v S) ps)) + f v
       = sum_list (map f (filter (\<lambda>u. u \<notin> S) ps))"
      using Cons.IH Cons.prems(1,2) by simp
    then show ?thesis using False by simp
  qed
qed

lemma find_contacts_stranger:
  "v \<notin> set (map person_id (stars db)) \<Longrightarrow> find_contacts db v = []"
proof (rule ccontr)
  assume v: "v \<notin> set (map person_id (stars db))" and "find_contacts db v \<noteq> []"
  then obtain b where "b \<in> set (find_contacts db v)" by (cases "find_contacts db v") auto
  then have "co_appear db v b" by (simp add: find_contacts_iff)
  then show False using v co_appear_person by blast
qed

lemma search_potential_discard:
  "search_potential db ((v, p) # rest) vis = Suc (search_potential db rest vis)"
  by (simp add: search_potential_def)

lemma search_potential_expand:
  assumes "v \<notin> vis"
  shows "search_potential db
           (rest @ map (\<lambda>contact. (contact, v # p))
                     (filter (\<lambda>contact. contact \<notin> insert v vis) (find_contacts db v)))
           (insert v vis)
         < search_potential db ((v, p) # rest) vis"
proof -
  let ?ps = "remdups (map person_id (stars db))"
  let ?deg = "\<lambda>u. length (find_contacts db u)"
  let ?new = "map (\<lambda>contact. (contact, v # p))
                     (filter (\<lambda>contact. contact \<notin> insert v vis) (find_contacts db v))"
  have n: "length ?new \<le> ?deg v" by simp
  define a where "a = sum_list (map ?deg (filter (\<lambda>u. u \<notin> insert v vis) ?ps))"
  define b where "b = sum_list (map ?deg (filter (\<lambda>u. u \<notin> vis) ?ps))"
  have e: "a + ?deg v = b"
  proof (cases "v \<in> set ?ps")
    case True
    then show ?thesis unfolding a_def b_def using assms by (intro sum_list_filter_insert) simp_all
  next
    case False
    then have "find_contacts db v = []" by (intro find_contacts_stranger) simp
    moreover have "filter (\<lambda>u. u \<notin> insert v vis) ?ps = filter (\<lambda>u. u \<notin> vis) ?ps"
      using False by (intro filter_cong) auto
    ultimately show ?thesis by (simp add: a_def b_def)
  qed
  have l: "search_potential db (rest @ ?new) (insert v vis) = length rest + length ?new + a"
    by (simp add: search_potential_def a_def)
  have r: "search_potential db ((v, p) # rest) vis = Suc (length rest) + b"
    by (simp add: search_potential_def b_def)
  show ?thesis using n e unfolding l r by linarith
qed

lemma solve_loop_no_abort:
  "n + int (search_potential db queue vis) \<le> mx \<Longrightarrow> solve_loop db t mx queue n vis \<noteq> Aborted"
proof (induction db t mx queue n vis rule: solve_loop.induct)
  case (1 db target max_nodes nodes_visited visited_ids)
  then show ?case by simp
next
  case (2 db target max_nodes current_node current_path queue nodes_visited visited_ids)
  let ?new = "map (\<lambda>contact. (contact, current_node # current_path))
                     (filter (\<lambda>contact. contact \<notin> insert current_node visited_ids)
                        (find_contacts db current_node))"
  have go: "\<not> nodes_visited + 1 > max_nodes"
    using "2.prems" by (simp add: search_potential_discard)
  show ?case
  proof (cases "current_node \<in> visited_ids")
    case True
    have "nodes_visited + 1 + int (search_potential db queue visited_ids) \<le> max_nodes"
      using "2.prems" by (simp add: search_potential_discard)
    then show ?thesis using "2.IH"(1) [OF go True] go True by simp
  next
    case fresh: False
    show ?thesis
    proof (cases "target \<in> set (find_contacts db current_node)")
      case True
      then show ?thesis using go fresh by simp
    next
      case False
      have "search_potential db (queue @ ?new) (insert current_node visited_ids)
          < search_potential db ((current_node, current_path) # queue) visited_ids"
        using fresh by (rule search_potential_expand)
      then have "nodes_visited + 1
          + int (search_potential db (queue @ ?new) (insert current_node visited_ids)) \<le> max_nodes"
        using "2.prems" by simp
      then show ?thesis using "2.IH"(2) [OF go fresh False] go fresh False by simp
    qed
  qed
qed

lemma solve_no_abort: "search_bound db \<le> mx \<Longrightarrow> solve db s t mx \<noteq> Aborted"
  unfolding solve_def
  by (rule solve_loop_no_abort) (simp add: search_bound_def search_potential_def)



subsection \<open>Walks and the outcomes of solve\<close>

lemma connects_hops: "connects db q a b \<Longrightarrow> hops db a (length q - 1) b"
proof -
  assume c: "connects db q a b"
  then have "walk db (rev q)" "rev q \<noteq> []" by (simp_all add: connects_def walk_rev)
  then have "hops db (last (rev q)) (length (rev q) - 1) (hd (rev q))" by (rule walk_hops)
  moreover have "last (rev q) = a" "hd (rev q) = b"
    using c by (simp_all add: connects_def last_rev hd_rev)
  ultimately show ?thesis by simp
qed



lemma connects_rev: "connects db q a b \<Longrightarrow> connects db (rev q) b a"
  by (simp add: connects_def walk_rev hd_rev last_rev)

lemma solve_sound:
  "(solve db s t mx = NoPath \<longrightarrow> (\<forall>k. \<not> hops db s (Suc k) t))
   \<and> (\<forall>r. solve db s t mx = Path r \<longrightarrow>
         2 \<le> length r \<and> hd r = t \<and> last r = s \<and> walk db r
         \<and> (\<forall>k. hops db s (Suc k) t \<longrightarrow> length r \<le> Suc (Suc k)))"
  unfolding solve_def by (rule solve_loop_sound) (rule bfs_inv_init)

lemma solve_NoPath_no_walk:
  assumes "solve db s t mx = NoPath"
  shows "\<not> (\<exists>q. connects db q s t \<and> 2 \<le> length q)"
proof
  assume "\<exists>q. connects db q s t \<and> 2 \<le> length q"
  then obtain q where q: "connects db q s t" "2 \<le> length q" by blast
  then have "hops db s (length q - 1) t" by (intro connects_hops)
  moreover have "length q - 1 = Suc (length q - 2)" using q(2) by linarith
  ultimately have "hops db s (Suc (length q - 2)) t" by simp
  then show False using solve_sound [of db s t mx] assms by blast
qed

lemma solve_Path_walk:
  assumes "solve db s t mx = Path r"
  shows "2 \<le> length r \<and> connects db r t s \<and> connects db (rev r) s t
     \<and> (\<forall>q. connects db q s t \<and> 2 \<le> length q \<longrightarrow> length r \<le> length q)"
proof -
  have r: "2 \<le> length r" "hd r = t" "last r = s" "walk db r"
    and m: "\<forall>k. hops db s (Suc k) t \<longrightarrow> length r \<le> Suc (Suc k)"
    using solve_sound [of db s t mx] assms by blast+
  have ne: "r \<noteq> []" using r(1) by auto
  then have c: "connects db r t s" using r by (simp add: connects_def)
  have "length r \<le> length q" if q: "connects db q s t \<and> 2 \<le> length q" for q
  proof -
    have "hops db s (length q - 1) t" using q by (intro connects_hops) simp
    moreover have "length q - 1 = Suc (length q - 2)" using q by linarith
    ultimately have "hops db s (Suc (length q - 2)) t" by simp
    then have "length r \<le> Suc (Suc (length q - 2))" using m by blast
    then show ?thesis using q by linarith
  qed
  then show ?thesis using r(1) c connects_rev [OF c] by blast
qed

lemma connects_distinct_length: "connects db q a b \<Longrightarrow> a \<noteq> b \<Longrightarrow> 2 \<le> length q"
proof (cases q)
  case Nil
  assume "connects db q a b"
  then show ?thesis using Nil by (simp add: connects_def)
next
  case (Cons x xs)
  assume "connects db q a b" "a \<noteq> b"
  then have "xs \<noteq> []" using Cons by (auto simp: connects_def)
  then show ?thesis using Cons by (cases xs) auto
qed



lemma solve_self_contact:
  assumes "2 \<le> mx" "find_contacts db s \<noteq> []"
  shows "solve db s s mx = Path [s, hd (find_contacts db s), s]"
proof -
  obtain n cs where cs: "find_contacts db s = n # cs"
    using assms(2) by (cases "find_contacts db s") auto
  have self: "s \<notin> set (find_contacts db s)"
    by (simp add: find_contacts_iff co_appear_irrefl)
  then have f: "filter (\<lambda>contact. contact \<notin> insert s {}) (find_contacts db s) = find_contacts db s"
    by (intro filter_True) auto
  have "n \<in> set (find_contacts db s)" by (simp add: cs)
  then have "co_appear db s n" by (simp add: find_contacts_iff)
  then have "co_appear db n s" and ne: "n \<noteq> s"
    using co_appear_irrefl by (auto intro: co_appear_sym)
  then have rt: "s \<in> set (find_contacts db n)" by (simp add: find_contacts_iff)
  have "solve db s s mx
      = solve_loop db s mx (map (\<lambda>contact. (contact, [s])) (find_contacts db s)) 1 {s}"
    using assms(1) self f by (simp add: solve_def)
  also have "\<dots> = Path [s, n, s]"
    using assms(1) rt ne by (simp add: cs)
  finally show ?thesis by (simp add: cs)
qed

lemma solve_self_alone:
  assumes "1 \<le> mx" "find_contacts db s = []"
  shows "solve db s s mx = NoPath"
  using assms by (simp add: solve_def)



lemmas graph_defs =
  connects_def co_appear_def find_contacts_def solve_def default_max_nodes_def
  chain_fixture_def two_component_fixture_def edge_def

lemma chain_1_3: "solve chain_fixture 1 3 default_max_nodes = Path [3, 2, 1]"
  by (simp add: graph_defs)

lemma chain_1_2: "solve chain_fixture 1 2 default_max_nodes = Path [2, 1]"
  by (simp add: graph_defs)



text \<open>
  C9. With a ceiling of two or more, \<open>solve\<close> from a person to the same person
  returns the three ids \<open>[start, n, start]\<close> for some \<open>n\<close> joined to the person, and
  not the single id, when the person is joined to anybody; with a ceiling of one or
  more it returns \<open>None\<close> when the person is joined to nobody. The default ceiling
  is 1000000.
\<close>

theorem solve_same_person:
  "(2 \<le> max_nodes \<and> (\<exists>n. co_appear db start n) \<longrightarrow>
      (\<exists>n. co_appear db start n \<and> solve db start start max_nodes = Path [start, n, start])
      \<and> solve db start start max_nodes \<noteq> Path [start])
   \<and> (1 \<le> max_nodes \<and> \<not> (\<exists>n. co_appear db start n) \<longrightarrow>
        solve db start start max_nodes = NoPath)"
proof (intro conjI impI)
  assume a: "2 \<le> max_nodes \<and> (\<exists>n. co_appear db start n)"
  then have ne: "find_contacts db start \<noteq> []"
    using find_contacts_iff [of _ db start] by (metis empty_iff empty_set)
  then have s: "solve db start start max_nodes = Path [start, hd (find_contacts db start), start]"
    using a by (simp add: solve_self_contact)
  have "hd (find_contacts db start) \<in> set (find_contacts db start)" using ne by simp
  then have "co_appear db start (hd (find_contacts db start))" by (simp add: find_contacts_iff)
  then show "\<exists>n. co_appear db start n \<and> solve db start start max_nodes = Path [start, n, start]"
    using s by blast
  show "solve db start start max_nodes \<noteq> Path [start]" using s by simp
next
  assume a: "1 \<le> max_nodes \<and> \<not> (\<exists>n. co_appear db start n)"
  then have "find_contacts db start = []"
    using find_contacts_iff [of _ db start] by (metis list.set_intros(1) neq_Nil_conv)
  then show "solve db start start max_nodes = NoPath" using a by (simp add: solve_self_alone)
qed

theorem solve_same_person_witness:
  "(\<exists>n. co_appear chain_fixture 2 n \<and> solve chain_fixture 2 2 default_max_nodes = Path [2, n, 2])
   \<and> solve chain_fixture 2 2 default_max_nodes \<noteq> Path [2]
   \<and> solve chain_fixture 7 7 default_max_nodes = NoPath"
proof -
  have "co_appear chain_fixture 2 1" by (simp add: graph_defs)
  then have h1: "2 \<le> default_max_nodes \<and> (\<exists>n. co_appear chain_fixture 2 n)"
    by (auto simp: default_max_nodes_def)
  have h2: "1 \<le> default_max_nodes \<and> \<not> (\<exists>n. co_appear chain_fixture 7 n)"
    by (simp add: graph_defs)
  note a = solve_same_person [of default_max_nodes chain_fixture 2, THEN conjunct1, THEN mp, OF h1]
  note b = solve_same_person [of default_max_nodes chain_fixture 7, THEN conjunct2, THEN mp, OF h2]
  from a b show ?thesis by blast
qed



text \<open>
  C1, as the code has it. Let a walk join two distinct people. Then \<open>solve\<close>, unless
  the ceiling ends the program, returns a list that leads from the target back to the
  start: it begins with the target and ends with the start, neighbours in it are
  joined, and it is no longer than any walk from the start to the target, so that it
  has the least number of steps plus one entries; its reverse is a walk from the
  start to the target. No ceiling from \<open>search_bound\<close> on ends the program. On the
  fixture with the edges A - M1 - B and B - M2 - C, \<open>solve\<close> from A to C returns
  C, B, A and from A to B it returns B, A.
\<close>

theorem solve_shortest_reversed:
  "(start \<noteq> target \<and> connects db q start target \<longrightarrow>
      (search_bound db \<le> max_nodes \<longrightarrow> solve db start target max_nodes \<noteq> Aborted)
      \<and> (solve db start target max_nodes \<noteq> Aborted \<longrightarrow>
           (\<exists>p. solve db start target max_nodes = Path p
                \<and> connects db p target start \<and> connects db (rev p) start target
                \<and> length p \<le> length q)))
   \<and> solve chain_fixture 1 3 default_max_nodes = Path [3, 2, 1]
   \<and> solve chain_fixture 1 2 default_max_nodes = Path [2, 1]"
proof (intro conjI impI)
  assume "start \<noteq> target \<and> connects db q start target" and "search_bound db \<le> max_nodes"
  then show "solve db start target max_nodes \<noteq> Aborted" by (simp add: solve_no_abort)
next
  assume a: "start \<noteq> target \<and> connects db q start target"
    and n: "solve db start target max_nodes \<noteq> Aborted"
  have q: "connects db q start target \<and> 2 \<le> length q"
    using a connects_distinct_length by blast
  show "\<exists>p. solve db start target max_nodes = Path p
                \<and> connects db p target start \<and> connects db (rev p) start target
                \<and> length p \<le> length q"
  proof (cases "solve db start target max_nodes")
    case (Path r)
    then show ?thesis using solve_Path_walk [OF Path] q by blast
  next
    case NoPath
    then show ?thesis using solve_NoPath_no_walk [OF NoPath] q by blast
  next
    case Aborted
    then show ?thesis using n by simp
  qed
next
  show "solve chain_fixture 1 3 default_max_nodes = Path [3, 2, 1]" by (rule chain_1_3)
  show "solve chain_fixture 1 2 default_max_nodes = Path [2, 1]" by (rule chain_1_2)
qed

theorem solve_shortest_reversed_witness:
  "solve chain_fixture 1 3 default_max_nodes \<noteq> Aborted
   \<and> (\<exists>p. solve chain_fixture 1 3 default_max_nodes = Path p
          \<and> connects chain_fixture p 3 1 \<and> connects chain_fixture (rev p) 1 3
          \<and> length p \<le> length [1, 2, 3 :: int])"
proof -
  have h1: "(1 :: int) \<noteq> 3 \<and> connects chain_fixture [1, 2, 3] 1 3"
    by (simp add: graph_defs)
  have h2: "search_bound chain_fixture \<le> default_max_nodes"
    by (simp add: search_bound_def graph_defs)
  note a = solve_shortest_reversed [of 1 3 chain_fixture "[1, 2, 3]" default_max_nodes,
      THEN conjunct1, THEN mp, OF h1]
  note c1 = a [THEN conjunct1, THEN mp, OF h2]
  note c2 = a [THEN conjunct2, THEN mp, OF c1]
  from c1 c2 show ?thesis by (intro conjI)
qed

text \<open>
  C1 as stated fails on its own fixture: the list returned for A and C is C, B, A, not
  A, B, C. It fails also for equal endpoints, which are joined by the walk of no step:
  the list returned for B and B has three entries, B, a contact of B, and B, not one.
\<close>

theorem solve_order_counterexample:
  "connects chain_fixture [1, 2, 3] 1 3
   \<and> solve chain_fixture 1 3 default_max_nodes = Path [3, 2, 1]
   \<and> solve chain_fixture 1 3 default_max_nodes \<noteq> Path [1, 2, 3]
   \<and> connects chain_fixture [2] 2 2
   \<and> solve chain_fixture 2 2 default_max_nodes \<noteq> Path [2]
   \<and> (\<exists>n. solve chain_fixture 2 2 default_max_nodes = Path [2, n, 2])"
proof -
  have a: "connects chain_fixture [1, 2, 3] 1 3
      \<and> solve chain_fixture 1 3 default_max_nodes = Path [3, 2, 1]
      \<and> solve chain_fixture 1 3 default_max_nodes \<noteq> Path [1, 2, 3]
      \<and> connects chain_fixture [2] 2 2"
    by (simp add: graph_defs)
  have "solve chain_fixture 2 2 default_max_nodes = Path [2, 1, 2]"
    by (simp add: graph_defs)
  then have "solve chain_fixture 2 2 default_max_nodes \<noteq> Path [2]"
    and "\<exists>n. solve chain_fixture 2 2 default_max_nodes = Path [2, n, 2]"
    by simp_all
  with a show ?thesis by (intro conjI) simp_all
qed

end
